theory Spec2Isabelle
  imports Main "HOL-Library.Sublist" "HOL-Library.List_Lexorder" "HOL-Library.Log_Nat"
begin

section \<open>Phishing-website detection: the feature-extraction pipeline\<close>

text \<open>
  A shallow embedding of \<^verbatim>\<open>src/utils/feature_extractor.py\<close> (class
  \<^verbatim>\<open>FeatureExtractor\<close>), of the list \<^verbatim>\<open>FEATURE_NAMES\<close> of \<^verbatim>\<open>config.py\<close> and of
  \<^verbatim>\<open>WebsiteAnalyzer.get_features_array\<close> of \<^verbatim>\<open>app.py\<close>.

  A Python \<^verbatim>\<open>str\<close> is the list of its code points, Python \<^verbatim>\<open>int\<close> is
  \<^typ>\<open>int\<close>, the dictionary \<^verbatim>\<open>self.features\<close> is a map from feature names to
  integers, \<^verbatim>\<open>None\<close> is \<^const>\<open>None\<close>. The feature names are the ASCII literals of
  the source and stay \<^typ>\<open>string\<close>s. The libraries the classes call (urllib, re,
  requests, bs4, whois, socket, ssl, numpy) are not part of the repository: what they
  answer is a parameter of the model.
\<close>

subsection \<open>Strings\<close>

text \<open>
  A string of Python: its code points in order, so that \<^verbatim>\<open>len\<close> is the length of the
  list and a character beyond ASCII is one element. \<^verbatim>\<open>lit\<close> gives the code points of
  a literal of the source.
\<close>

type_synonym pystr = "nat list"

definition lit :: "string \<Rightarrow> pystr" where
  "lit s = map of_char s"

subsection \<open>Exceptions\<close>

text \<open>
  The exceptions the collaborators raise. The first six are classes of
  \<^verbatim>\<open>requests.exceptions\<close> (all subclasses of \<^verbatim>\<open>RequestException\<close>;
  \<^verbatim>\<open>RequestException\<close> itself stands for any other of them); the others are built-in
  classes, \<^verbatim>\<open>OtherException\<close> any further subclass of \<^verbatim>\<open>Exception\<close>.
\<close>

datatype py_exn =
    SSLError | ProxyError | Timeout | ConnectionError | HTTPError | RequestException
  | ValueError | TypeError | IndexError | AttributeError | OSError | OtherException

text \<open>\<^verbatim>\<open>except (requests.exceptions.SSLError, requests.exceptions.ProxyError)\<close>\<close>

fun is_SSLError_or_ProxyError :: "py_exn \<Rightarrow> bool" where
  "is_SSLError_or_ProxyError SSLError = True"
| "is_SSLError_or_ProxyError ProxyError = True"
| "is_SSLError_or_ProxyError _ = False"

text \<open>\<^verbatim>\<open>except requests.exceptions.RequestException\<close>\<close>

fun is_RequestException :: "py_exn \<Rightarrow> bool" where
  "is_RequestException SSLError = True"
| "is_RequestException ProxyError = True"
| "is_RequestException Timeout = True"
| "is_RequestException ConnectionError = True"
| "is_RequestException HTTPError = True"
| "is_RequestException RequestException = True"
| "is_RequestException _ = False"

text \<open>\<^verbatim>\<open>except Exception\<close>: every class above derives from \<^verbatim>\<open>Exception\<close>.\<close>

fun is_Exception :: "py_exn \<Rightarrow> bool" where
  "is_Exception SSLError = True"
| "is_Exception ProxyError = True"
| "is_Exception Timeout = True"
| "is_Exception ConnectionError = True"
| "is_Exception HTTPError = True"
| "is_Exception RequestException = True"
| "is_Exception ValueError = True"
| "is_Exception TypeError = True"
| "is_Exception IndexError = True"
| "is_Exception AttributeError = True"
| "is_Exception OSError = True"
| "is_Exception OtherException = True"

subsection \<open>The data of one analysis\<close>

text \<open>
  \<^verbatim>\<open>urllib.parse.ParseResult\<close>, with the attributes the class reads. \<^verbatim>\<open>port\<close> is a
  property that raises \<^verbatim>\<open>ValueError\<close> on a port that is not a number in range, so
  reading it is a value or an exception.
\<close>

record parsed_url =
  scheme :: pystr
  netloc :: pystr
  path :: pystr
  query :: pystr
  port :: "py_exn + nat option"

text \<open>
  \<^verbatim>\<open>requests.Response\<close>: the status code, the body text and the redirect history (the
  URLs of the intermediate responses).
\<close>

record http_response =
  status_code :: nat
  body_text :: pystr
  history :: "pystr list"

text \<open>
  The parsed document, as the answers of the queries that
  \<^verbatim>\<open>_extract_html_features\<close> makes on the \<^verbatim>\<open>BeautifulSoup\<close> object:
  \<^verbatim>\<open>str(form)\<close> of every \<^verbatim>\<open>form\<close> element, whether \<^verbatim>\<open>find('iframe')\<close> finds an
  element, the \<^verbatim>\<open>.string\<close> of every \<^verbatim>\<open>script\<close> element found with
  \<^verbatim>\<open>string=True\<close>, \<^verbatim>\<open>str(soup)\<close>, the \<^verbatim>\<open>href\<close> of every \<^verbatim>\<open>a\<close> element that has
  one, and whether \<^verbatim>\<open>find('link', rel='icon')\<close> finds an element.
\<close>

record soup_doc =
  form_markup :: "pystr list"
  has_iframe :: bool
  script_strings :: "pystr list"
  document_markup :: pystr
  anchor_hrefs :: "pystr list"
  has_icon_link :: bool

text \<open>The attributes of a \<^verbatim>\<open>FeatureExtractor\<close> object, as \<^verbatim>\<open>__init__\<close> sets them.\<close>

record extractor =
  url :: pystr
  parsed_url :: parsed_url
  domain :: pystr
  html_content :: "pystr option"
  soup :: "soup_doc option"
  response :: "http_response option"
  features :: "string \<rightharpoonup> int"

subsection \<open>The URL normalizer\<close>

text \<open>\<^verbatim>\<open>url.startswith(prefixes)\<close> with a tuple of prefixes.\<close>

definition startswith :: "pystr \<Rightarrow> pystr list \<Rightarrow> bool" where
  "startswith s ps = list_ex (\<lambda>p. prefix p s) ps"

definition normalize_url :: "pystr \<Rightarrow> pystr" where
  "normalize_url u =
     (if \<not> startswith u [lit ''http://'', lit ''https://''] then lit ''http://'' @ u else u)"

subsection \<open>The feature vector assembler\<close>

text \<open>The list \<^verbatim>\<open>feature_order\<close> of \<^verbatim>\<open>FeatureExtractor.get_feature_vector\<close>.\<close>

definition feature_order :: "string list" where
  "feature_order =
     [''having_ip_address'', ''url_length'', ''shortining_service'', ''having_at_symbol'',
      ''double_slash_redirecting'', ''prefix_suffix'', ''having_sub_domain'', ''sslfinal_state'',
      ''domain_registration_length'', ''favicon'', ''port'', ''https_token'', ''request_url'',
      ''url_of_anchor'', ''links_in_tags'', ''sfh'', ''submitting_to_email'', ''abnormal_url'',
      ''redirect'', ''on_mouseover'', ''rightclick'', ''popupwindow'', ''iframe'', ''age_of_domain'',
      ''dnsrecord'', ''web_traffic'', ''page_rank'', ''google_index'', ''links_pointing_to_page'',
      ''statistical_report'']"

text \<open>\<^verbatim>\<open>d.get(key, default)\<close>\<close>

definition dict_get :: "('k \<rightharpoonup> 'v) \<Rightarrow> 'k \<Rightarrow> 'v \<Rightarrow> 'v" where
  "dict_get d k dflt = (case d k of None \<Rightarrow> dflt | Some v \<Rightarrow> v)"

text \<open>\<^verbatim>\<open>return [self.features.get(feature, 0) for feature in feature_order]\<close>\<close>

definition get_feature_vector :: "extractor \<Rightarrow> int list" where
  "get_feature_vector s = map (\<lambda>feature. dict_get (features s) feature 0) feature_order"

subsection \<open>The other two copies of the canonical order\<close>

text \<open>The list \<^verbatim>\<open>FEATURE_NAMES\<close> of \<^verbatim>\<open>config.py\<close>.\<close>

definition FEATURE_NAMES :: "string list" where
  "FEATURE_NAMES =
     [''having_ip_address'', ''url_length'', ''shortining_service'', ''having_at_symbol'',
      ''double_slash_redirecting'', ''prefix_suffix'', ''having_sub_domain'', ''sslfinal_state'',
      ''domain_registration_length'', ''favicon'', ''port'', ''https_token'', ''request_url'',
      ''url_of_anchor'', ''links_in_tags'', ''sfh'', ''submitting_to_email'', ''abnormal_url'',
      ''redirect'', ''on_mouseover'', ''rightclick'', ''popupwindow'', ''iframe'', ''age_of_domain'',
      ''dnsrecord'', ''web_traffic'', ''page_rank'', ''google_index'', ''links_pointing_to_page'',
      ''statistical_report'']"

text \<open>
  The attributes of a \<^verbatim>\<open>WebsiteAnalyzer\<close> object of \<^verbatim>\<open>app.py\<close>, and the list
  \<^verbatim>\<open>feature_order\<close> of its method \<^verbatim>\<open>get_features_array\<close>.
\<close>

record website_analyzer =
  wa_url :: pystr
  wa_html_content :: "pystr option"
  wa_soup :: "soup_doc option"
  wa_response :: "http_response option"
  wa_features :: "string \<rightharpoonup> int"

definition wa_feature_order :: "string list" where
  "wa_feature_order =
     [''having_ip_address'', ''url_length'', ''shortining_service'', ''having_at_symbol'',
      ''double_slash_redirecting'', ''prefix_suffix'', ''having_sub_domain'', ''sslfinal_state'',
      ''domain_registration_length'', ''favicon'', ''port'', ''https_token'', ''request_url'',
      ''url_of_anchor'', ''links_in_tags'', ''sfh'', ''submitting_to_email'', ''abnormal_url'',
      ''redirect'', ''on_mouseover'', ''rightclick'', ''popupwindow'', ''iframe'', ''age_of_domain'',
      ''dnsrecord'', ''web_traffic'', ''page_rank'', ''google_index'', ''links_pointing_to_page'',
      ''statistical_report'']"

text \<open>
  The loop of \<^verbatim>\<open>get_features_array\<close>: for each name in order, append the dictionary's
  value when the name is a key, and 0 otherwise.
\<close>

fun features_loop :: "(string \<rightharpoonup> int) \<Rightarrow> string list \<Rightarrow> int list \<Rightarrow> int list" where
  "features_loop d [] acc = acc"
| "features_loop d (feature # rest) acc =
     (case d feature of
        Some v \<Rightarrow> features_loop d rest (acc @ [v])
      | None \<Rightarrow> features_loop d rest (acc @ [0]))"

text \<open>
  \<^verbatim>\<open>return np.array([features])\<close>: the list of one row goes through \<^verbatim>\<open>np.array\<close>,
  which is NumPy's and a parameter here.
\<close>

definition get_features_array :: "(int list list \<Rightarrow> 'arr) \<Rightarrow> website_analyzer \<Rightarrow> 'arr" where
  "get_features_array np_array a =
     np_array [features_loop (wa_features a) wa_feature_order []]"

text \<open>
  \<^verbatim>\<open>np.array\<close> on rows of Python integers, as NumPy does it where the C \<^verbatim>\<open>long\<close> has
  64 bits: each integer is taken as \<^verbatim>\<open>int64\<close> when it fits, else as \<^verbatim>\<open>uint64\<close> when
  it fits, else as an object; the array's type is the common type of all of them, and
  the common type of \<^verbatim>\<open>int64\<close> and \<^verbatim>\<open>uint64\<close> is \<^verbatim>\<open>float64\<close>. An array of
  \<^verbatim>\<open>float64\<close> is given by the integer values of its entries: every integer below
  \<^term>\<open>2 ^ 64 :: int\<close> in size rounds to a \<^verbatim>\<open>float64\<close> that is an integer.
\<close>

datatype ndarray =
    Int64Array "int list list" | UInt64Array "int list list"
  | Float64Array "int list list" | ObjectArray "int list list"

text \<open>
  The \<^verbatim>\<open>float64\<close> nearest to an integer, ties to the even mantissa of 53 bits
  (no integer in reach of the model is large enough to overflow).
\<close>

definition float64_of_int :: "int \<Rightarrow> int" where
  "float64_of_int x =
     (let m = \<bar>x\<bar>; e = bitlen m - 53
      in if e \<le> 0 then x
         else (let q = m div 2 ^ nat e; r = m mod 2 ^ nat e; half = 2 ^ (nat e - 1);
                   q' = (if r > half \<or> (r = half \<and> odd q) then q + 1 else q)
               in sgn x * q' * 2 ^ nat e))"

definition fits_int64 :: "int \<Rightarrow> bool" where
  "fits_int64 x = (- (2 ^ 63) \<le> x \<and> x < 2 ^ 63)"

definition fits_uint64 :: "int \<Rightarrow> bool" where
  "fits_uint64 x = (0 \<le> x \<and> x < 2 ^ 64)"

definition numpy_array :: "int list list \<Rightarrow> ndarray" where
  "numpy_array rows =
     (let xs = concat rows
      in if xs = [] then Float64Array rows
         else if list_all fits_int64 xs then Int64Array rows
         else if list_all (\<lambda>x. \<not> fits_int64 x \<and> fits_uint64 x) xs then UInt64Array rows
         else if list_all (\<lambda>x. fits_int64 x \<or> fits_uint64 x) xs
           then Float64Array (map (map float64_of_int) rows)
         else ObjectArray rows)"

subsection \<open>Strings and regular expressions\<close>

text \<open>\<^verbatim>\<open>sub in s\<close> on strings: \<^verbatim>\<open>sub\<close> occurs in \<^verbatim>\<open>s\<close> at some position.\<close>

fun str_contains :: "pystr \<Rightarrow> pystr \<Rightarrow> bool" where
  "str_contains sub [] = (sub = [])"
| "str_contains sub (c # cs) = (prefix sub (c # cs) \<or> str_contains sub cs)"

text \<open>
  \<^verbatim>\<open>s.split(sep)\<close> with a separator of one character; \<^verbatim>\<open>cur\<close> is the piece being
  read. The result has one piece more than \<^verbatim>\<open>s\<close> has separators.
\<close>

fun split_from :: "nat \<Rightarrow> pystr \<Rightarrow> pystr \<Rightarrow> pystr list" where
  "split_from sep cur [] = [cur]"
| "split_from sep cur (c # cs) =
     (if c = sep then cur # split_from sep [] cs else split_from sep (cur @ [c]) cs)"

definition str_split :: "pystr \<Rightarrow> nat \<Rightarrow> pystr list" where
  "str_split s sep = split_from sep [] s"

text \<open>\<^verbatim>\<open>sep.join(pieces)\<close>\<close>

fun str_join :: "pystr \<Rightarrow> pystr list \<Rightarrow> pystr" where
  "str_join sep [] = []"
| "str_join sep [x] = x"
| "str_join sep (x # y # ys) = x @ sep @ str_join sep (y # ys)"

text \<open>
  The regular expressions that the pattern of \<^verbatim>\<open>_extract_url_features\<close> needs: a
  class of characters (for \<^verbatim>\<open>\d\<close>), an escaped character, sequence and repetition;
  alternative, the empty word and the empty language come in with the derivatives.
  Matching is by derivatives.
\<close>

datatype rexp =
    Never | Empty | Class "nat \<Rightarrow> bool" | Lit nat | Alt rexp rexp | Seq rexp rexp | Star rexp

text \<open>
  \<^verbatim>\<open>\d\<close> in a pattern that is a \<^verbatim>\<open>str\<close>: every decimal digit of Unicode (category
  Nd). Among the code points of ASCII these are the ten from 48 to 57; which code points
  beyond ASCII are decimal digits is a table of the interpreter's Unicode database, the
  parameter \<^verbatim>\<open>nd\<close>.
\<close>

definition is_digit :: "(nat \<Rightarrow> bool) \<Rightarrow> nat \<Rightarrow> bool" where
  "is_digit nd c = (48 \<le> c \<and> c \<le> 57 \<or> 128 \<le> c \<and> nd c)"

fun nullable :: "rexp \<Rightarrow> bool" where
  "nullable Never = False"
| "nullable Empty = True"
| "nullable (Class P) = False"
| "nullable (Lit c) = False"
| "nullable (Alt r q) = (nullable r \<or> nullable q)"
| "nullable (Seq r q) = (nullable r \<and> nullable q)"
| "nullable (Star r) = True"

fun deriv :: "nat \<Rightarrow> rexp \<Rightarrow> rexp" where
  "deriv c Never = Never"
| "deriv c Empty = Never"
| "deriv c (Class P) = (if P c then Empty else Never)"
| "deriv c (Lit d) = (if c = d then Empty else Never)"
| "deriv c (Alt r q) = Alt (deriv c r) (deriv c q)"
| "deriv c (Seq r q) =
     (if nullable r then Alt (Seq (deriv c r) q) (deriv c q) else Seq (deriv c r) q)"
| "deriv c (Star r) = Seq (deriv c r) (Star r)"

fun fullmatch :: "rexp \<Rightarrow> pystr \<Rightarrow> bool" where
  "fullmatch r [] = nullable r"
| "fullmatch r (c # cs) = fullmatch (deriv c r) cs"

text \<open>\<^verbatim>\<open>r+\<close>\<close>

definition Plus :: "rexp \<Rightarrow> rexp" where
  "Plus r = Seq r (Star r)"

text \<open>
  \<^verbatim>\<open>re.match('^' r '$', s)\<close>: \<^verbatim>\<open>re.match\<close> matches at the start of \<^verbatim>\<open>s\<close>, and without
  \<^verbatim>\<open>re.MULTILINE\<close> a final \<^verbatim>\<open>$\<close> matches at the end of \<^verbatim>\<open>s\<close> and also just before a
  newline (code point 10) that is the last character of \<^verbatim>\<open>s\<close>. The result is whether
  a match object is returned.
\<close>

definition re_match_anchored :: "rexp \<Rightarrow> pystr \<Rightarrow> bool" where
  "re_match_anchored r s =
     (fullmatch r s \<or> (s \<noteq> [] \<and> last s = 10 \<and> fullmatch r (butlast s)))"

text \<open>
  The pattern \<^verbatim>\<open>r'^\d+\.\d+\.\d+\.\d+$'\<close>, without its anchors; 46 is the code point of
  the full stop.
\<close>

definition ip_pattern :: "(nat \<Rightarrow> bool) \<Rightarrow> rexp" where
  "ip_pattern nd =
     Seq (Plus (Class (is_digit nd))) (Seq (Lit 46)
       (Seq (Plus (Class (is_digit nd))) (Seq (Lit 46)
         (Seq (Plus (Class (is_digit nd))) (Seq (Lit 46) (Plus (Class (is_digit nd))))))))"

text \<open>
  What a regular expression stands for, as a set of strings, and the strings that the
  pattern is meant for: four non-empty runs of decimal digits with full stops between
  them.
\<close>

inductive_set repetitions :: "pystr set \<Rightarrow> pystr set" for L :: "pystr set" where
  no_piece: "[] \<in> repetitions L"
| one_more: "u \<in> L \<Longrightarrow> v \<in> repetitions L \<Longrightarrow> u @ v \<in> repetitions L"

fun words :: "rexp \<Rightarrow> pystr set" where
  "words Never = {}"
| "words Empty = {[]}"
| "words (Class P) = {[c] | c. P c}"
| "words (Lit d) = {[d]}"
| "words (Alt r q) = words r \<union> words q"
| "words (Seq r q) = {u @ v | u v. u \<in> words r \<and> v \<in> words q}"
| "words (Star r) = repetitions (words r)"

definition digits :: "(nat \<Rightarrow> bool) \<Rightarrow> pystr \<Rightarrow> bool" where
  "digits nd w = (w \<noteq> [] \<and> list_all (is_digit nd) w)"

definition dotted_quad :: "(nat \<Rightarrow> bool) \<Rightarrow> pystr \<Rightarrow> bool" where
  "dotted_quad nd s =
     (\<exists>a b c d. digits nd a \<and> digits nd b \<and> digits nd c \<and> digits nd d \<and>
        s = a @ [46] @ b @ [46] @ c @ [46] @ d)"

subsection \<open>The lexical feature deriver\<close>

definition shorteners :: "pystr list" where
  "shorteners =
     map lit
       [''bit.ly'', ''tinyurl.com'', ''goo.gl'', ''t.co'', ''ow.ly'', ''is.gd'', ''buff.ly'',
        ''bit.do'', ''mcaf.ee'', ''rebrand.ly'']"

text \<open>The truth value of \<^verbatim>\<open>self.parsed_url.port\<close>: \<^verbatim>\<open>None\<close> and 0 are false.\<close>

fun port_truthy :: "nat option \<Rightarrow> bool" where
  "port_truthy None = False"
| "port_truthy (Some n) = (n \<noteq> 0)"

text \<open>
  \<^verbatim>\<open>_extract_url_features\<close> (an Isabelle name cannot start with an underscore). The
  result is the exception raised, if any, and the object as the method leaves it: the
  read of \<^verbatim>\<open>port\<close> comes after seven assignments, which stay when it raises.
  \<^verbatim>\<open>nd\<close> is the table of decimal digits that \<^verbatim>\<open>re\<close> uses for \<^verbatim>\<open>\d\<close>.
\<close>

definition extract_url_features ::
  "(nat \<Rightarrow> bool) \<Rightarrow> extractor \<Rightarrow> (py_exn + unit) \<times> extractor" where
  "extract_url_features nd s =
     (let f1 = (features s)(''url_length'' \<mapsto> int (length (url s)));
          f2 = f1(''having_ip_address'' \<mapsto>
                 (if re_match_anchored (ip_pattern nd) (netloc (parsed_url s)) then - 1 else 1));
          f3 = f2(''shortining_service'' \<mapsto>
                 (if list_ex (\<lambda>shortener. str_contains shortener (url s)) shorteners
                  then 1 else - 1));
          f4 = f3(''having_at_symbol'' \<mapsto> (if str_contains (lit ''@'') (url s) then 1 else - 1));
          f5 = f4(''double_slash_redirecting'' \<mapsto>
                 (if str_contains (lit ''//'') (drop 7 (url s)) then 1 else - 1));
          domain_parts = str_split (domain s) (of_char CHR ''.'');
          f6 = f5(''prefix_suffix'' \<mapsto> (if str_contains (lit ''-'') (domain s) then 1 else - 1));
          f7 = f6(''having_sub_domain'' \<mapsto>
                 (if length domain_parts > 2 then int (length domain_parts) - 2 else - 1))
      in case port (parsed_url s) of
           Inl e \<Rightarrow> (Inl e, s\<lparr>features := f7\<rparr>)
         | Inr p \<Rightarrow>
             (let f8 = f7(''port'' \<mapsto> (if port_truthy p then 1 else - 1));
                  f9 = f8(''https_token'' \<mapsto>
                         (if scheme (parsed_url s) = lit ''https'' then 1 else - 1))
              in (Inr (), s\<lparr>features := f9\<rparr>)))"

text \<open>The nine keys that \<^verbatim>\<open>_extract_url_features\<close> assigns, in the order it does.\<close>

definition lexical_keys :: "string list" where
  "lexical_keys =
     [''url_length'', ''having_ip_address'', ''shortining_service'', ''having_at_symbol'',
      ''double_slash_redirecting'', ''prefix_suffix'', ''having_sub_domain'', ''port'',
      ''https_token'']"

subsection \<open>The structural feature deriver\<close>

text \<open>
  \<^verbatim>\<open>_extract_html_features\<close>. It reads \<^verbatim>\<open>self.soup\<close>; on \<^verbatim>\<open>None\<close> the first
  statement, \<^verbatim>\<open>self.soup.find_all('form')\<close>, raises \<^verbatim>\<open>AttributeError\<close>.
\<close>

definition extract_html_features :: "extractor \<Rightarrow> (py_exn + unit) \<times> extractor" where
  "extract_html_features s =
     (case soup s of
        None \<Rightarrow> (Inl AttributeError, s)
      | Some d \<Rightarrow>
     (let forms = form_markup d;
          f1 = (features s)(''sfh'' \<mapsto> (if forms \<noteq> [] then 1 else - 1));
          f2 = f1(''submitting_to_email'' \<mapsto>
                 (if list_ex (\<lambda>form. str_contains (lit ''mailto:'') form) forms then 1 else - 1));
          f3 = f2(''iframe'' \<mapsto> (if has_iframe d then 1 else - 1));
          script_text = str_join (lit '' '') (filter (\<lambda>str. str \<noteq> []) (script_strings d));
          f4 = f3(''popupwindow'' \<mapsto> (if str_contains (lit ''window.open'') script_text then 1 else - 1));
          f5 = f4(''on_mouseover'' \<mapsto>
                 (if str_contains (lit ''onmouseover='') (document_markup d) then 1 else - 1));
          f6 = f5(''rightclick'' \<mapsto>
                 (if str_contains (lit ''event.button==2'') script_text then 1 else - 1));
          anchors = anchor_hrefs d;
          f7 = f6(''url_of_anchor'' \<mapsto>
                 (if list_ex (\<lambda>href. str_contains (lit ''http'') href) anchors then 1 else - 1));
          f8 = f7(''links_in_tags'' \<mapsto> int (length anchors));
          f9 = f8(''favicon'' \<mapsto> (if has_icon_link d then 1 else - 1))
      in (Inr (), s\<lparr>features := f9\<rparr>)))"

text \<open>The nine keys that \<^verbatim>\<open>_extract_html_features\<close> assigns.\<close>

definition structural_keys :: "string list" where
  "structural_keys =
     [''sfh'', ''submitting_to_email'', ''iframe'', ''popupwindow'', ''on_mouseover'',
      ''rightclick'', ''url_of_anchor'', ''links_in_tags'', ''favicon'']"

subsection \<open>The collaborators\<close>

text \<open>
  A date of a WHOIS record: a \<^verbatim>\<open>datetime\<close>, a string that the WHOIS library could
  not convert, or \<^verbatim>\<open>None\<close>. A \<^verbatim>\<open>datetime\<close> is naive or carries a time zone, and is
  given by its seconds (of UTC when it carries a zone). The attribute
  \<^verbatim>\<open>creation_date\<close> is one such value or a list of them.
\<close>

datatype tzinfo = Naive | Aware

datatype py_date = Datetime tzinfo int | Str pystr | NoneValue

datatype whois_date = Scalar py_date | DateList "py_date list"

text \<open>
  The WHOIS record: \<^verbatim>\<open>creation_date\<close>, and \<^verbatim>\<open>name_servers\<close>, which is missing
  (\<^verbatim>\<open>hasattr\<close> is false), \<^verbatim>\<open>None\<close> or a list.
\<close>

record whois_entry =
  creation_date :: whois_date
  name_servers :: "pystr list option option"

text \<open>
  What the libraries answer. \<^verbatim>\<open>session_head\<close> and \<^verbatim>\<open>session_get\<close> take the number of
  requests made before, the URL and the \<^verbatim>\<open>verify\<close> flag, so a server may answer the
  same request differently each time; a request returns a response or raises.
  \<^verbatim>\<open>BeautifulSoup\<close> parses a text or raises, \<^verbatim>\<open>whois_lookup\<close> is \<^verbatim>\<open>whois.whois\<close>,
  \<^verbatim>\<open>now\<close> is \<^verbatim>\<open>datetime.now()\<close>, a naive time, in seconds, \<^verbatim>\<open>create_connection\<close>
  takes host and port and \<^verbatim>\<open>wrap_socket\<close> the server's host name, each raising or
  not. \<^verbatim>\<open>unicode_decimal\<close> tells which code points beyond ASCII are decimal digits
  for \<^verbatim>\<open>re\<close>.
\<close>

record env =
  urlparse :: "pystr \<Rightarrow> parsed_url"
  session_head :: "nat \<Rightarrow> pystr \<Rightarrow> bool \<Rightarrow> py_exn option"
  session_get :: "nat \<Rightarrow> pystr \<Rightarrow> bool \<Rightarrow> py_exn + http_response"
  BeautifulSoup :: "pystr \<Rightarrow> py_exn + soup_doc"
  whois_lookup :: "pystr \<Rightarrow> py_exn + whois_entry"
  now :: int
  create_connection :: "pystr \<Rightarrow> nat \<Rightarrow> py_exn option"
  wrap_socket :: "pystr \<Rightarrow> py_exn option"
  unicode_decimal :: "nat \<Rightarrow> bool"

text \<open>\<^verbatim>\<open>FeatureExtractor.__init__\<close>\<close>

definition init :: "env \<Rightarrow> pystr \<Rightarrow> extractor" where
  "init env raw =
     (let u = normalize_url raw; p = urlparse env u
      in \<lparr>url = u, parsed_url = p, domain = netloc p, html_content = None, soup = None,
           response = None, features = Map.empty\<rparr>)"

subsection \<open>The fetcher\<close>

text \<open>
  One entry for each pass through the body of the inner loop of \<^verbatim>\<open>fetch_website\<close>:
  the URL requested, \<^verbatim>\<open>verify_ssl\<close> and \<^verbatim>\<open>attempt\<close> (the three values of the log line
  \<^verbatim>\<open>Attempting request to ...\<close>), whether the HEAD request raised, and the exception
  that ended the pass, \<^verbatim>\<open>None\<close> when it reached \<^verbatim>\<open>return True\<close>.
\<close>

record attempt_record =
  req_url :: pystr
  req_verify :: bool
  req_attempt :: nat
  head_raised :: bool
  raised :: "py_exn option"

text \<open>How a pass ends: \<^verbatim>\<open>return True\<close>, \<^verbatim>\<open>continue\<close>, or an exception that no handler took.\<close>

datatype control = Return_True | Continue | Propagate py_exn

text \<open>\<^verbatim>\<open>response.raise_for_status()\<close>: \<^verbatim>\<open>HTTPError\<close> on a status from 400 to 599.\<close>

definition raise_for_status :: "http_response \<Rightarrow> py_exn option" where
  "raise_for_status r =
     (if 400 \<le> status_code r \<and> status_code r < 600 then Some HTTPError else None)"

text \<open>The URL of an attempt, built from the scheme tried and the parsed URL.\<close>

definition request_url :: "parsed_url \<Rightarrow> pystr \<Rightarrow> pystr" where
  "request_url p sch =
     (let u = sch @ lit ''://'' @ netloc p @ path p
      in if query p \<noteq> [] then u @ lit ''?'' @ query p else u)"

text \<open>
  The statements of the inner \<^verbatim>\<open>try\<close> from \<^verbatim>\<open>session.get\<close> on: the exception raised,
  or \<^verbatim>\<open>None\<close> at \<^verbatim>\<open>return True\<close>, and the object as they leave it.
\<close>

definition attempt_body ::
  "env \<Rightarrow> nat \<Rightarrow> pystr \<Rightarrow> bool \<Rightarrow> extractor \<Rightarrow> py_exn option \<times> extractor" where
  "attempt_body env n u verify_ssl s =
     (case session_get env n u verify_ssl of
        Inl e \<Rightarrow> (Some e, s)
      | Inr r \<Rightarrow>
          (let s1 = s\<lparr>response := Some r\<rparr>
           in case raise_for_status r of
                Some e \<Rightarrow> (Some e, s1)
              | None \<Rightarrow>
                  (let s2 = s1\<lparr>url := u, html_content := Some (body_text r)\<rparr>
                   in case BeautifulSoup env (body_text r) of
                        Inl e \<Rightarrow> (Some e, s2)
                      | Inr d \<Rightarrow> (None, s2\<lparr>soup := Some d\<rparr>))))"

text \<open>
  The handler of the inner \<^verbatim>\<open>try\<close>: it takes \<^verbatim>\<open>SSLError\<close> and \<^verbatim>\<open>ProxyError\<close>, and
  continues or raises again; any other exception passes it.
\<close>

definition inner_handler :: "nat \<Rightarrow> int \<Rightarrow> bool \<Rightarrow> py_exn \<Rightarrow> control" where
  "inner_handler attempt max_retries verify_ssl e =
     (if is_SSLError_or_ProxyError e
      then (if int attempt < max_retries \<and> verify_ssl then Continue else Propagate e)
      else Propagate e)"

text \<open>The two handlers of the outer \<^verbatim>\<open>try\<close>: both print (or not) and continue.\<close>

definition outer_handlers :: "py_exn \<Rightarrow> control" where
  "outer_handlers e =
     (if is_RequestException e then Continue
      else if is_Exception e then Continue
      else Propagate e)"

text \<open>
  One pass through the body of the inner loop; \<^verbatim>\<open>tr\<close> holds the passes made before.
  The HEAD request is made with the same arguments; whether it raises is recorded and
  nothing else depends on it.
\<close>

definition one_attempt ::
  "env \<Rightarrow> int \<Rightarrow> pystr \<Rightarrow> nat \<Rightarrow> attempt_record list \<Rightarrow> extractor
     \<Rightarrow> control \<times> attempt_record list \<times> extractor" where
  "one_attempt env max_retries sch attempt tr s =
     (let u = request_url (parsed_url s) sch;
          verify_ssl = (attempt = 0);
          n = length tr;
          head_exc = session_head env n u verify_ssl;
          (exc, s') = attempt_body env n u verify_ssl s;
          tr' = tr @ [\<lparr>req_url = u, req_verify = verify_ssl, req_attempt = attempt,
                        head_raised = (head_exc \<noteq> None), raised = exc\<rparr>]
      in case exc of
           None \<Rightarrow> (Return_True, tr', s')
         | Some e \<Rightarrow>
             (case inner_handler attempt max_retries verify_ssl e of
                Propagate e' \<Rightarrow> (outer_handlers e', tr', s')
              | c \<Rightarrow> (c, tr', s')))"

text \<open>\<^verbatim>\<open>for attempt in range(max_retries + 1)\<close>, over the values still to come.\<close>

fun attempts_loop ::
  "env \<Rightarrow> int \<Rightarrow> pystr \<Rightarrow> nat list \<Rightarrow> attempt_record list \<Rightarrow> extractor
     \<Rightarrow> control \<times> attempt_record list \<times> extractor" where
  "attempts_loop env max_retries sch [] tr s = (Continue, tr, s)"
| "attempts_loop env max_retries sch (attempt # rest) tr s =
     (case one_attempt env max_retries sch attempt tr s of
        (Continue, tr', s') \<Rightarrow> attempts_loop env max_retries sch rest tr' s'
      | (c, tr', s') \<Rightarrow> (c, tr', s'))"

text \<open>\<^verbatim>\<open>range(max_retries + 1)\<close>\<close>

definition attempt_range :: "int \<Rightarrow> nat list" where
  "attempt_range max_retries = [0 ..< nat (max_retries + 1)]"

text \<open>\<^verbatim>\<open>for scheme in schemes_to_try\<close>, over the schemes still to come.\<close>

fun schemes_loop ::
  "env \<Rightarrow> int \<Rightarrow> pystr list \<Rightarrow> attempt_record list \<Rightarrow> extractor
     \<Rightarrow> control \<times> attempt_record list \<times> extractor" where
  "schemes_loop env max_retries [] tr s = (Continue, tr, s)"
| "schemes_loop env max_retries (sch # rest) tr s =
     (case attempts_loop env max_retries sch (attempt_range max_retries) tr s of
        (Continue, tr', s') \<Rightarrow> schemes_loop env max_retries rest tr' s'
      | (c, tr', s') \<Rightarrow> (c, tr', s'))"

definition schemes_to_try :: "parsed_url \<Rightarrow> pystr list" where
  "schemes_to_try p =
     [scheme p] @
     (if scheme p = lit ''http'' then [lit ''https'']
      else if scheme p = lit ''https'' then [lit ''http''] else [])"

text \<open>
  \<^verbatim>\<open>fetch_website(max_retries)\<close>: the value returned or the exception that leaves the
  method, the passes made, and the object afterwards. When both loops end without a
  \<^verbatim>\<open>return\<close>, the method returns \<^verbatim>\<open>False\<close>.
\<close>

definition fetch_website ::
  "env \<Rightarrow> int \<Rightarrow> extractor \<Rightarrow> (py_exn + bool) \<times> attempt_record list \<times> extractor" where
  "fetch_website env max_retries s =
     (case schemes_loop env max_retries (schemes_to_try (parsed_url s)) [] s of
        (Return_True, tr, s') \<Rightarrow> (Inr True, tr, s')
      | (Continue, tr, s') \<Rightarrow> (Inr False, tr, s')
      | (Propagate e, tr, s') \<Rightarrow> (Inl e, tr, s'))"

subsection \<open>The network signal deriver\<close>

text \<open>The truth value of \<^verbatim>\<open>domain.creation_date\<close> and of \<^verbatim>\<open>domain.name_servers\<close>.\<close>

fun date_truthy :: "whois_date \<Rightarrow> bool" where
  "date_truthy (Scalar (Datetime z t)) = True"
| "date_truthy (Scalar (Str x)) = (x \<noteq> [])"
| "date_truthy (Scalar NoneValue) = False"
| "date_truthy (DateList ds) = (ds \<noteq> [])"

text \<open>\<^verbatim>\<open>hasattr(domain, 'name_servers') and domain.name_servers\<close>\<close>

fun name_servers_truthy :: "pystr list option option \<Rightarrow> bool" where
  "name_servers_truthy None = False"
| "name_servers_truthy (Some None) = False"
| "name_servers_truthy (Some (Some ns)) = (ns \<noteq> [])"

text \<open>
  \<^verbatim>\<open>x < y\<close> on two dates: two \<^verbatim>\<open>datetime\<close>s compare when both are naive or both
  carry a zone, two strings compare, anything else raises \<^verbatim>\<open>TypeError\<close>.
\<close>

fun py_less :: "py_date \<Rightarrow> py_date \<Rightarrow> py_exn + bool" where
  "py_less (Datetime z a) (Datetime z' b) = (if z = z' then Inr (a < b) else Inl TypeError)"
| "py_less (Str a) (Str b) = Inr (a < b)"
| "py_less _ _ = Inl TypeError"

text \<open>
  \<^verbatim>\<open>min(ds)\<close>: \<^verbatim>\<open>m\<close> is the least value so far, and each further element is compared
  with it. On the empty list \<^verbatim>\<open>min\<close> raises \<^verbatim>\<open>ValueError\<close>.
\<close>

fun min_from :: "py_date \<Rightarrow> py_date list \<Rightarrow> py_exn + py_date" where
  "min_from m [] = Inr m"
| "min_from m (x # xs) =
     (case py_less x m of
        Inl e \<Rightarrow> Inl e
      | Inr b \<Rightarrow> min_from (if b then x else m) xs)"

fun py_min :: "py_date list \<Rightarrow> py_exn + py_date" where
  "py_min [] = Inl ValueError"
| "py_min (x # xs) = min_from x xs"

text \<open>The calls that \<^verbatim>\<open>_perform_additional_lookups\<close> makes on the network, in order.\<close>

datatype lookup_call =
    Whois_call pystr | Connect_call pystr nat | Handshake_call pystr

text \<open>
  The statements on \<^verbatim>\<open>domain.creation_date\<close>: the exception raised, if any, and the
  object afterwards. \<^verbatim>\<open>datetime.now()\<close> is naive, and subtracting a
  \<^verbatim>\<open>datetime\<close> that carries a zone from it raises \<^verbatim>\<open>TypeError\<close>. \<^verbatim>\<open>.days\<close> of a
  difference of times is its whole number of days, rounded down.
\<close>

definition creation_date_step ::
  "env \<Rightarrow> whois_entry \<Rightarrow> extractor \<Rightarrow> py_exn option \<times> extractor" where
  "creation_date_step env d s =
     (if date_truthy (creation_date d) then
        (case (case creation_date d of DateList ds \<Rightarrow> py_min ds | Scalar x \<Rightarrow> Inr x) of
           Inl e \<Rightarrow> (Some e, s)
         | Inr (Datetime Aware c) \<Rightarrow> (Some TypeError, s)
         | Inr (Datetime Naive c) \<Rightarrow>
             (let domain_age = (now env - c) div 86400;
                  f1 = (features s)(''age_of_domain'' \<mapsto> (if domain_age > 365 then 1 else - 1));
                  f2 = f1(''domain_registration_length'' \<mapsto> 1)
              in (None, s\<lparr>features := f2\<rparr>))
         | Inr _ \<Rightarrow> (None, s))
      else (None, s))"

text \<open>
  The body of the first \<^verbatim>\<open>try\<close> of \<^verbatim>\<open>_perform_additional_lookups\<close>: the exception
  raised, if any, the calls made, and the object afterwards.
\<close>

definition lookups_body ::
  "env \<Rightarrow> extractor \<Rightarrow> py_exn option \<times> lookup_call list \<times> extractor" where
  "lookups_body env s =
     (case whois_lookup env (url s) of
        Inl e \<Rightarrow> (Some e, [Whois_call (url s)], s)
      | Inr d \<Rightarrow>
          (case creation_date_step env d s of
             (Some e, s1) \<Rightarrow> (Some e, [Whois_call (url s)], s1)
           | (None, s1) \<Rightarrow>
               (let s2 = s1\<lparr>features := (features s1)(''dnsrecord'' \<mapsto>
                             (if name_servers_truthy (name_servers d) then 1 else - 1))\<rparr>
                in case str_split (netloc (parsed_url s)) (of_char CHR '':'') of
                     [] \<Rightarrow> (Some IndexError, [Whois_call (url s)], s2)
                   | hostname # _ \<Rightarrow>
                       (case create_connection env hostname 443 of
                          Some e \<Rightarrow>
                            (Some e, [Whois_call (url s), Connect_call hostname 443], s2)
                        | None \<Rightarrow>
                            (case wrap_socket env hostname of
                               Some e \<Rightarrow>
                                 (Some e, [Whois_call (url s), Connect_call hostname 443,
                                            Handshake_call hostname], s2)
                             | None \<Rightarrow>
                                 (None, [Whois_call (url s), Connect_call hostname 443,
                                          Handshake_call hostname],
                                  s2\<lparr>features := (features s2)(''sslfinal_state'' \<mapsto> 1)\<rparr>))))))"

text \<open>
  \<^verbatim>\<open>_perform_additional_lookups\<close>: the eleven defaults, the first \<^verbatim>\<open>try\<close> with its
  bare \<^verbatim>\<open>except\<close>, then the redirect check. The result is the calls made and the object
  afterwards; no exception leaves the method.
\<close>

definition perform_additional_lookups ::
  "env \<Rightarrow> extractor \<Rightarrow> lookup_call list \<times> extractor" where
  "perform_additional_lookups env s =
     (let s0 = s\<lparr>features := (features s)
                 (''age_of_domain'' \<mapsto> 0, ''domain_registration_length'' \<mapsto> 0,
                  ''dnsrecord'' \<mapsto> 0, ''sslfinal_state'' \<mapsto> 0, ''redirect'' \<mapsto> 0,
                  ''web_traffic'' \<mapsto> 0, ''page_rank'' \<mapsto> 0, ''google_index'' \<mapsto> 0,
                  ''links_pointing_to_page'' \<mapsto> 0, ''statistical_report'' \<mapsto> 0,
                  ''abnormal_url'' \<mapsto> 0)\<rparr>;
          (exc, calls, s1) = lookups_body env s0;
          s2 = (case exc of
                  Some e \<Rightarrow> s1\<lparr>features := (features s1)(''sslfinal_state'' \<mapsto> - 1)\<rparr>
                | None \<Rightarrow> s1);
          s3 = (case response s2 of
                  Some r \<Rightarrow> s2\<lparr>features := (features s2)(''redirect'' \<mapsto>
                              (if length (history r) > 0 then 1 else - 1))\<rparr>
                | None \<Rightarrow> s2)
      in (calls, s3))"

text \<open>The eleven keys that \<^verbatim>\<open>_perform_additional_lookups\<close> sets to 0 first.\<close>

definition network_keys :: "string list" where
  "network_keys =
     [''age_of_domain'', ''domain_registration_length'', ''dnsrecord'', ''sslfinal_state'',
      ''redirect'', ''web_traffic'', ''page_rank'', ''google_index'', ''links_pointing_to_page'',
      ''statistical_report'', ''abnormal_url'']"

subsection \<open>The whole extraction\<close>

text \<open>
  \<^verbatim>\<open>extract_all_features\<close>: the dictionary returned or the exception that leaves the
  method, the network calls made, and the object afterwards. \<^verbatim>\<open>if self.soup\<close> holds
  exactly when \<^verbatim>\<open>self.soup\<close> is not \<^verbatim>\<open>None\<close>: a \<^verbatim>\<open>BeautifulSoup\<close> object is always true.
\<close>

definition extract_all_features ::
  "env \<Rightarrow> extractor \<Rightarrow> (py_exn + (string \<rightharpoonup> int)) \<times> lookup_call list \<times> extractor" where
  "extract_all_features env s =
     (case extract_url_features (unicode_decimal env) s of
        (Inl e, s1) \<Rightarrow> (Inl e, [], s1)
      | (Inr _, s1) \<Rightarrow>
          (case (if soup s1 \<noteq> None then extract_html_features s1 else (Inr (), s1)) of
             (Inl e, s2) \<Rightarrow> (Inl e, [], s2)
           | (Inr _, s2) \<Rightarrow>
               (let (calls, s3) = perform_additional_lookups env s2
                in (Inr (features s3), calls, s3))))"

subsection \<open>Notions used to state the properties\<close>

text \<open>The request of a pass: URL, \<^verbatim>\<open>verify_ssl\<close> and \<^verbatim>\<open>attempt\<close>.\<close>

definition request_of :: "attempt_record \<Rightarrow> pystr \<times> bool \<times> nat" where
  "request_of a = (req_url a, req_verify a, req_attempt a)"

text \<open>
  The requests of one scheme when none succeeds, and of the whole method: for each
  scheme in turn, the attempts 0 to \<^verbatim>\<open>max_retries\<close>, the first with verification and
  the others without.
\<close>

definition scheme_schedule :: "parsed_url \<Rightarrow> int \<Rightarrow> pystr \<Rightarrow> (pystr \<times> bool \<times> nat) list" where
  "scheme_schedule p max_retries sch =
     map (\<lambda>attempt. (request_url p sch, attempt = 0, attempt)) (attempt_range max_retries)"

definition schedule :: "parsed_url \<Rightarrow> int \<Rightarrow> (pystr \<times> bool \<times> nat) list" where
  "schedule p max_retries = concat (map (scheme_schedule p max_retries) (schemes_to_try p))"

text \<open>
  A run of passes \<^verbatim>\<open>new\<close> against the requests \<^verbatim>\<open>planned\<close>: the passes made are the
  first of the planned ones, every pass but the last raised, and the run ended either
  with all planned passes made and raised (\<^const>\<open>Continue\<close>) or with a pass that did not
  raise (\<^const>\<open>Return_True\<close>).
\<close>

definition run_shape ::
  "control \<Rightarrow> attempt_record list \<Rightarrow> (pystr \<times> bool \<times> nat) list \<Rightarrow> bool" where
  "run_shape c new planned =
     (map request_of new = take (length new) planned \<and>
      list_all (\<lambda>a. raised a \<noteq> None) (butlast new) \<and>
      (case c of
         Continue \<Rightarrow> length new = length planned \<and> list_all (\<lambda>a. raised a \<noteq> None) new
       | Return_True \<Rightarrow> new \<noteq> [] \<and> raised (last new) = None
       | Propagate e \<Rightarrow> False))"

text \<open>A GET that fails in the HTTP client: it raises, or its status is an error.\<close>

definition http_failure :: "py_exn + http_response \<Rightarrow> bool" where
  "http_failure x = (case x of Inl e \<Rightarrow> True | Inr r \<Rightarrow> raise_for_status r \<noteq> None)"

text \<open>
  Every GET of a run failed in the HTTP client: the passes \<^verbatim>\<open>new\<close> are numbered from
  \<^verbatim>\<open>n\<close> on as they were made, and the GET of each is the answer to its own request.
\<close>

fun gets_failed_from :: "env \<Rightarrow> nat \<Rightarrow> attempt_record list \<Rightarrow> bool" where
  "gets_failed_from env n [] = True"
| "gets_failed_from env n (a # new) =
     (http_failure (session_get env n (req_url a) (req_verify a)) \<and>
      gets_failed_from env (Suc n) new)"

definition gets_failed :: "env \<Rightarrow> attempt_record list \<Rightarrow> bool" where
  "gets_failed env tr = gets_failed_from env 0 tr"

text \<open>
  What a run of passes \<^verbatim>\<open>new\<close>, numbered from \<^verbatim>\<open>n\<close>, does to the URL and the content
  of the object: when every GET of the run failed in the HTTP client the run ended with
  \<^const>\<open>Continue\<close> and both are as before; otherwise the content is set; and a content
  that was set stays set.
\<close>

definition content_kept ::
  "env \<Rightarrow> nat \<Rightarrow> attempt_record list \<Rightarrow> control \<Rightarrow> extractor \<Rightarrow> extractor \<Rightarrow> bool" where
  "content_kept env n new c s s' =
     ((gets_failed_from env n new \<longrightarrow>
         c = Continue \<and> url s' = url s \<and> html_content s' = html_content s) \<and>
      (\<not> gets_failed_from env n new \<longrightarrow> html_content s' \<noteq> None) \<and>
      (html_content s \<noteq> None \<longrightarrow> html_content s' \<noteq> None))"

text \<open>
  The retry policy in the words of the specification: a pass is made without
  verification, on the URL of the pass before it, only when that pass failed with a
  TLS or proxy error.
\<close>

fun tls_error :: "py_exn option \<Rightarrow> bool" where
  "tls_error None = False"
| "tls_error (Some e) = is_SSLError_or_ProxyError e"

fun relaxed_only_after_tls_error :: "attempt_record list \<Rightarrow> bool" where
  "relaxed_only_after_tls_error [] = True"
| "relaxed_only_after_tls_error [a] = True"
| "relaxed_only_after_tls_error (a # b # rest) =
     ((if req_url b = req_url a \<and> \<not> req_verify b then tls_error (raised a) else True) \<and>
      relaxed_only_after_tls_error (b # rest))"

subsection \<open>Example inputs\<close>

text \<open>What \<^verbatim>\<open>urlparse\<close> answers on \<^verbatim>\<open>http://example.com\<close>.\<close>

definition example_parsed :: parsed_url where
  "example_parsed =
     \<lparr>scheme = lit ''http'', netloc = lit ''example.com'', path = [], query = [],
      port = Inr None\<rparr>"

text \<open>A page with one form and nothing else, and the response that carries it.\<close>

definition form_page :: soup_doc where
  "form_page =
     \<lparr>form_markup = [lit ''<form></form>''], has_iframe = False, script_strings = [],
      document_markup = lit ''<form></form>'', anchor_hrefs = [], has_icon_link = False\<rparr>"

definition ok_response :: http_response where
  "ok_response = \<lparr>status_code = 200, body_text = lit ''<form></form>'', history = []\<rparr>"

text \<open>
  A world in which nothing answers: every GET times out, every HEAD raises, WHOIS
  raises and no connection can be made.
\<close>

definition failing_env :: env where
  "failing_env =
     \<lparr>urlparse = (\<lambda>u. example_parsed),
      session_head = (\<lambda>n u v. Some Timeout),
      session_get = (\<lambda>n u v. Inl Timeout),
      BeautifulSoup = (\<lambda>x. Inr form_page),
      whois_lookup = (\<lambda>u. Inl OtherException),
      now = 0,
      create_connection = (\<lambda>h p. Some OSError),
      wrap_socket = (\<lambda>h. Some OSError),
      unicode_decimal = (\<lambda>c. False)\<rparr>"

text \<open>The Arabic-Indic digits, ten of the decimal digits beyond ASCII.\<close>

definition arabic_indic :: "nat \<Rightarrow> bool" where
  "arabic_indic c = (1632 \<le> c \<and> c \<le> 1641)"

text \<open>
  A world in which every GET gets a page with status 200 that the parser rejects
  (\<^verbatim>\<open>bs4\<close> raises \<^verbatim>\<open>ParserRejectedMarkup\<close>, a subclass of \<^verbatim>\<open>Exception\<close>).
\<close>

definition rejected_page :: http_response where
  "rejected_page = \<lparr>status_code = 200, body_text = lit ''<![ x'', history = []\<rparr>"

definition unparsable_env :: env where
  "unparsable_env =
     \<lparr>urlparse = (\<lambda>u. example_parsed),
      session_head = (\<lambda>n u v. None),
      session_get = (\<lambda>n u v. Inr rejected_page),
      BeautifulSoup = (\<lambda>x. Inl OtherException),
      whois_lookup = (\<lambda>u. Inl OtherException),
      now = 0,
      create_connection = (\<lambda>h p. Some OSError),
      wrap_socket = (\<lambda>h. Some OSError),
      unicode_decimal = (\<lambda>c. False)\<rparr>"

text \<open>
  A world with a server whose certificate does not verify: a request with verification
  raises \<^verbatim>\<open>SSLError\<close>, one without gets the page. WHOIS knows two creation dates and
  a name server, and port 443 answers.
\<close>

definition selfsigned_env :: env where
  "selfsigned_env =
     \<lparr>urlparse = (\<lambda>u. example_parsed),
      session_head = (\<lambda>n u v. if v then Some SSLError else None),
      session_get = (\<lambda>n u v. if v then Inl SSLError else Inr ok_response),
      BeautifulSoup = (\<lambda>x. Inr form_page),
      whois_lookup = (\<lambda>u. Inr \<lparr>creation_date =
                                     DateList [Datetime Naive 86400, Datetime Naive 0],
                                   name_servers = Some (Some [lit ''ns1.example.com''])\<rparr>),
      now = 86400 * 400,
      create_connection = (\<lambda>h p. None),
      wrap_socket = (\<lambda>h. None),
      unicode_decimal = arabic_indic\<rparr>"

text \<open>An extractor object with two features set, and a \<^verbatim>\<open>WebsiteAnalyzer\<close> with the same.\<close>

definition example_extractor :: extractor where
  "example_extractor =
     \<lparr>url = lit ''http://example.com'', parsed_url = example_parsed,
      domain = lit ''example.com'',
      html_content = None, soup = None, response = None,
      features = [''sfh'' \<mapsto> 1, ''url_length'' \<mapsto> 18]\<rparr>"

definition example_analyzer :: website_analyzer where
  "example_analyzer =
     \<lparr>wa_url = lit ''http://example.com'', wa_html_content = None, wa_soup = None,
      wa_response = None, wa_features = [''sfh'' \<mapsto> 1, ''url_length'' \<mapsto> 18]\<rparr>"

text \<open>
  An extractor object and a \<^verbatim>\<open>WebsiteAnalyzer\<close> whose one feature is an integer just
  beyond the signed 64-bit range.
\<close>

definition big_extractor :: extractor where
  "big_extractor = example_extractor\<lparr>features := [''url_length'' \<mapsto> 9223372036854775809]\<rparr>"

definition big_analyzer :: website_analyzer where
  "big_analyzer = example_analyzer\<lparr>wa_features := [''url_length'' \<mapsto> 9223372036854775809]\<rparr>"

section \<open>Properties\<close>

subsection \<open>The assembler and the normalizer\<close>

lemma features_loop_map:
  "features_loop d xs acc = acc @ map (\<lambda>feature. dict_get d feature 0) xs"
  by (induction xs arbitrary: acc) (auto simp: dict_get_def split: option.splits)

lemma length_feature_order: "length feature_order = 30"
  by (simp add: feature_order_def)

text \<open>
  C3. For every feature dictionary, \<^verbatim>\<open>get_feature_vector\<close> returns a list of exactly 30
  integers; slot \<^verbatim>\<open>i\<close> holds the dictionary's value for the \<^verbatim>\<open>i\<close>-th name of the
  canonical order, or 0 when the name is not a key; the empty dictionary gives the
  vector of 30 zeros. The function is total: it has a value on every dictionary.
\<close>

theorem get_feature_vector_spec:
  "length (get_feature_vector s) = 30 \<and>
   (\<forall>i<30. get_feature_vector s ! i =
      (case features s (feature_order ! i) of None \<Rightarrow> 0 | Some v \<Rightarrow> v)) \<and>
   (features s = Map.empty \<longrightarrow> get_feature_vector s = replicate 30 0)"
proof (intro conjI allI impI)
  show "length (get_feature_vector s) = 30"
    by (simp add: get_feature_vector_def length_feature_order)
next
  fix i :: nat assume "i < 30"
  then show "get_feature_vector s ! i =
      (case features s (feature_order ! i) of None \<Rightarrow> 0 | Some v \<Rightarrow> v)"
    by (simp add: get_feature_vector_def length_feature_order dict_get_def)
next
  assume "features s = Map.empty"
  then have "get_feature_vector s = map (\<lambda>_. 0) feature_order"
    by (simp add: get_feature_vector_def dict_get_def)
  also have "\<dots> = replicate (length feature_order) 0"
    by (simp add: map_replicate_const)
  finally show "get_feature_vector s = replicate 30 0"
    by (simp add: length_feature_order)
qed

theorem get_feature_vector_spec_witness:
  "(15::nat) < 30 \<and> feature_order ! 15 = ''sfh'' \<and>
   get_feature_vector example_extractor ! 15 = 1 \<and>
   length (get_feature_vector example_extractor) = 30 \<and>
   features (example_extractor\<lparr>features := Map.empty\<rparr>) = Map.empty \<and>
   get_feature_vector (example_extractor\<lparr>features := Map.empty\<rparr>) = replicate 30 0"
  using get_feature_vector_spec [of example_extractor]
    get_feature_vector_spec [of "example_extractor\<lparr>features := Map.empty\<rparr>"]
  by (simp add: example_extractor_def feature_order_def)

text \<open>
  C5. For every raw string, \<^verbatim>\<open>normalize_url\<close> returns it unchanged when it starts with
  \<^verbatim>\<open>http://\<close> or \<^verbatim>\<open>https://\<close>, and with \<^verbatim>\<open>http://\<close> put in front otherwise; so every
  normalized URL starts with \<^verbatim>\<open>http://\<close> or \<^verbatim>\<open>https://\<close>.
\<close>

theorem normalize_url_spec:
  "normalize_url u =
     (if prefix (lit ''http://'') u \<or> prefix (lit ''https://'') u then u
      else lit ''http://'' @ u)
   \<and> (prefix (lit ''http://'') (normalize_url u) \<or>
      prefix (lit ''https://'') (normalize_url u))"
  by (simp add: normalize_url_def startswith_def)

text \<open>
  C10, as the code has it. The list \<^verbatim>\<open>feature_order\<close> of
  \<^verbatim>\<open>FeatureExtractor.get_feature_vector\<close> is the list \<^verbatim>\<open>FEATURE_NAMES\<close> of
  \<^verbatim>\<open>config.py\<close> and the list \<^verbatim>\<open>feature_order\<close> of
  \<^verbatim>\<open>WebsiteAnalyzer.get_features_array\<close>, element for element; so on the same feature
  dictionary the one row that \<^verbatim>\<open>get_features_array\<close> hands to \<^verbatim>\<open>np.array\<close> is the
  vector of \<^verbatim>\<open>get_feature_vector\<close>, whatever \<^verbatim>\<open>np.array\<close> does with it; and when all
  thirty values are in the signed 64-bit range, NumPy's array holds exactly them.
\<close>

theorem feature_orders_agree:
  "feature_order = FEATURE_NAMES \<and> wa_feature_order = feature_order \<and>
   (wa_features a = features s \<longrightarrow>
      get_features_array np_array a = np_array [get_feature_vector s] \<and>
      (list_all fits_int64 (get_feature_vector s) \<longrightarrow>
         get_features_array numpy_array a = Int64Array [get_feature_vector s]))"
proof -
  have lists: "feature_order = FEATURE_NAMES" "wa_feature_order = feature_order"
    by (simp_all add: feature_order_def FEATURE_NAMES_def wa_feature_order_def)
  have row: "get_features_array f a = f [get_feature_vector s]"
    if "wa_features a = features s" for f :: "int list list \<Rightarrow> 'b"
    using that lists(2)
    by (simp add: get_features_array_def get_feature_vector_def features_loop_map)
  have ne: "get_feature_vector s \<noteq> []"
    by (simp add: get_feature_vector_def feature_order_def)
  have exact: "numpy_array [get_feature_vector s] = Int64Array [get_feature_vector s]"
    if "list_all fits_int64 (get_feature_vector s)"
    using that ne by (simp add: numpy_array_def)
  from lists row [of np_array] row [of numpy_array] exact show ?thesis by simp
qed

theorem feature_orders_agree_witness:
  "wa_features example_analyzer = features example_extractor \<and>
   list_all fits_int64 (get_feature_vector example_extractor) \<and>
   get_features_array numpy_array example_analyzer =
     Int64Array [get_feature_vector example_extractor] \<and>
   get_features_array (\<lambda>rows. rows) example_analyzer = [get_feature_vector example_extractor]"
proof -
  have same: "wa_features example_analyzer = features example_extractor"
    by (simp add: example_analyzer_def example_extractor_def)
  have fits: "list_all fits_int64 (get_feature_vector example_extractor)"
    by code_simp
  from feature_orders_agree [of example_analyzer example_extractor numpy_array]
    feature_orders_agree [of example_analyzer example_extractor "\<lambda>rows. rows"] same fits
  show ?thesis by simp
qed

text \<open>
  C10 as stated fails: with one value just beyond the signed 64-bit range among values
  that are in it, NumPy's array is of \<^verbatim>\<open>float64\<close> and holds the value rounded, where
  \<^verbatim>\<open>get_feature_vector\<close> has the exact integer.
\<close>

theorem rounded_by_np_array:
  "wa_features big_analyzer = features big_extractor \<and>
   get_feature_vector big_extractor =
     [0, 9223372036854775809, 0, 0, 0, 0, 0, 0, 0, 0, 0, 0, 0, 0, 0,
      0, 0, 0, 0, 0, 0, 0, 0, 0, 0, 0, 0, 0, 0, 0] \<and>
   get_features_array numpy_array big_analyzer =
     Float64Array
       [[0, 9223372036854775808, 0, 0, 0, 0, 0, 0, 0, 0, 0, 0, 0, 0, 0,
         0, 0, 0, 0, 0, 0, 0, 0, 0, 0, 0, 0, 0, 0, 0]]"
proof -
  have "wa_features big_analyzer = features big_extractor"
    by (simp add: big_analyzer_def big_extractor_def)
  moreover have "get_feature_vector big_extractor =
     [0, 9223372036854775809, 0, 0, 0, 0, 0, 0, 0, 0, 0, 0, 0, 0, 0,
      0, 0, 0, 0, 0, 0, 0, 0, 0, 0, 0, 0, 0, 0, 0]"
    by code_simp
  moreover have "get_features_array numpy_array big_analyzer =
     Float64Array
       [[0, 9223372036854775808, 0, 0, 0, 0, 0, 0, 0, 0, 0, 0, 0, 0, 0,
         0, 0, 0, 0, 0, 0, 0, 0, 0, 0, 0, 0, 0, 0, 0]]"
    by code_simp
  ultimately show ?thesis by simp
qed

subsection \<open>The fetcher: handlers, one pass, and the shape of a run\<close>

lemma outer_handlers_Continue: "outer_handlers e = Continue"
  by (cases e) (simp_all add: outer_handlers_def)

lemma handlers_Continue:
  "(case inner_handler i mr v e of Propagate e' \<Rightarrow> (outer_handlers e', x) | c \<Rightarrow> (c, x)) = (Continue, x)"
  by (simp add: inner_handler_def outer_handlers_Continue)

lemma one_attempt_eq:
  "one_attempt env mr sch i tr s =
     (let u = request_url (parsed_url s) sch;
          r = attempt_body env (length tr) u (i = 0) s
      in (if fst r = None then Return_True else Continue,
          tr @ [\<lparr>req_url = u, req_verify = (i = 0), req_attempt = i,
                  head_raised = (session_head env (length tr) u (i = 0) \<noteq> None),
                  raised = fst r\<rparr>],
          snd r))"
  by (cases "attempt_body env (length tr) (request_url (parsed_url s) sch) (i = 0) s")
     (simp add: one_attempt_def Let_def handlers_Continue split: option.splits)

lemma attempt_body_frame:
  assumes "attempt_body env n u v s = (exc, s')"
  shows "parsed_url s' = parsed_url s" and "domain s' = domain s"
    and "features s' = features s" and "exc \<noteq> None \<Longrightarrow> soup s' = soup s"
  using assms
  by (auto simp: attempt_body_def Let_def split: sum.splits option.splits)

lemma attempt_body_http_failure_eq:
  assumes "http_failure (session_get env n u v)"
  shows "\<exists>e r. attempt_body env n u v s = (Some e, s) \<or>
           attempt_body env n u v s = (Some e, s\<lparr>response := Some r\<rparr>)"
proof (cases "session_get env n u v")
  case (Inl e)
  then have "attempt_body env n u v s = (Some e, s)" by (simp add: attempt_body_def)
  then show ?thesis by blast
next
  case (Inr r)
  with assms obtain e where "raise_for_status r = Some e"
    by (auto simp: http_failure_def)
  with Inr have "attempt_body env n u v s = (Some e, s\<lparr>response := Some r\<rparr>)"
    by (simp add: attempt_body_def Let_def)
  then show ?thesis by blast
qed

lemma attempt_body_http_failure:
  assumes "attempt_body env n u v s = (exc, s')" and "http_failure (session_get env n u v)"
  shows "exc \<noteq> None" and "url s' = url s" and "html_content s' = html_content s"
  using attempt_body_http_failure_eq [OF assms(2), of s] assms(1) by auto

lemma run_shape_Nil: "run_shape Continue [] []"
  by (simp add: run_shape_def)

lemma run_shape_single:
  "request_of a = r \<Longrightarrow> run_shape (if raised a = None then Return_True else Continue) [a] [r]"
  by (simp add: run_shape_def)

lemma run_shape_length: "run_shape c new planned \<Longrightarrow> length new \<le> length planned"
proof -
  assume "run_shape c new planned"
  then have "map request_of new = take (length new) planned" by (simp add: run_shape_def)
  then have "length (map request_of new) = length (take (length new) planned)" by simp
  then show ?thesis by simp
qed

lemma run_shape_append:
  assumes "run_shape Continue n1 p1" and "run_shape c n2 p2"
  shows "run_shape c (n1 @ n2) (p1 @ p2)"
proof -
  from assms(1) have len: "length n1 = length p1" and m1: "map request_of n1 = p1"
    and r1: "list_all (\<lambda>a. raised a \<noteq> None) n1"
    by (simp_all add: run_shape_def)
  from assms(2) have m2: "map request_of n2 = take (length n2) p2"
    and r2: "list_all (\<lambda>a. raised a \<noteq> None) (butlast n2)"
    by (simp_all add: run_shape_def)
  have "map request_of (n1 @ n2) = take (length (n1 @ n2)) (p1 @ p2)"
    using len m1 m2 by simp
  moreover have "list_all (\<lambda>a. raised a \<noteq> None) (butlast (n1 @ n2))"
    using r1 r2 by (cases "n2 = []") (simp_all add: butlast_append list_all_iff, auto dest: in_set_butlastD)
  moreover have "case c of
         Continue \<Rightarrow> length (n1 @ n2) = length (p1 @ p2) \<and> list_all (\<lambda>a. raised a \<noteq> None) (n1 @ n2)
       | Return_True \<Rightarrow> n1 @ n2 \<noteq> [] \<and> raised (last (n1 @ n2)) = None
       | Propagate e \<Rightarrow> False"
    using assms(2) len r1 by (cases c) (auto simp: run_shape_def)
  ultimately show ?thesis by (simp add: run_shape_def)
qed

lemma run_shape_extend:
  assumes "run_shape Return_True n1 p1"
  shows "run_shape Return_True n1 (p1 @ p2)"
proof -
  have "length n1 \<le> length p1" using assms by (rule run_shape_length)
  then show ?thesis using assms by (simp add: run_shape_def)
qed

lemma run_shape_not_Propagate: "\<not> run_shape (Propagate e) new planned"
  by (simp add: run_shape_def)

lemma attempts_loop_shape:
  "attempts_loop env mr sch js tr s = (c, tr', s') \<Longrightarrow>
     \<exists>new. tr' = tr @ new \<and>
       run_shape c new (map (\<lambda>i. (request_url (parsed_url s) sch, i = 0, i)) js)"
proof (induction js arbitrary: tr s)
  case Nil
  then show ?case by (simp add: run_shape_Nil)
next
  case (Cons i js)
  define u where "u = request_url (parsed_url s) sch"
  obtain exc s1 where body: "attempt_body env (length tr) u (i = 0) s = (exc, s1)"
    by (cases "attempt_body env (length tr) u (i = 0) s")
  define a where "a = \<lparr>req_url = u, req_verify = (i = 0), req_attempt = i,
      head_raised = (session_head env (length tr) u (i = 0) \<noteq> None), raised = exc\<rparr>"
  have step: "one_attempt env mr sch i tr s =
      (if exc = None then Return_True else Continue, tr @ [a], s1)"
    by (simp add: one_attempt_eq Let_def body a_def u_def [symmetric])
  have ra: "request_of a = (u, i = 0, i)" and exa: "raised a = exc"
    by (simp_all add: request_of_def a_def)
  have single: "run_shape (if exc = None then Return_True else Continue) [a] [(u, i = 0, i)]"
    using run_shape_single [OF ra] exa by simp
  have p1: "parsed_url s1 = parsed_url s" using body by (rule attempt_body_frame)
  show ?case
  proof (cases "exc = None")
    case True
    with Cons.prems step have "c = Return_True" "tr' = tr @ [a]" by simp_all
    moreover have "run_shape Return_True [a]
        ([(u, i = 0, i)] @ map (\<lambda>i. (u, i = 0, i)) js)"
      using single True by (intro run_shape_extend) simp
    ultimately show ?thesis by (simp add: u_def)
  next
    case False
    with Cons.prems step have rest: "attempts_loop env mr sch js (tr @ [a]) s1 = (c, tr', s')"
      by simp
    from Cons.IH [OF rest] obtain new where
      new: "tr' = (tr @ [a]) @ new"
        "run_shape c new (map (\<lambda>i. (request_url (parsed_url s1) sch, i = 0, i)) js)"
      by blast
    have "run_shape c ([a] @ new) ([(u, i = 0, i)] @ map (\<lambda>i. (u, i = 0, i)) js)"
      using single False new(2) p1 by (simp only: run_shape_append u_def if_False)
    with new(1) show ?thesis by (auto simp: u_def)
  qed
qed

lemma one_attempt_frame:
  assumes "one_attempt env mr sch i tr s = (c, tr', s')"
  shows "parsed_url s' = parsed_url s" and "domain s' = domain s"
    and "features s' = features s" and "c = Continue \<Longrightarrow> soup s' = soup s"
proof -
  define u where "u = request_url (parsed_url s) sch"
  obtain exc s1 where body: "attempt_body env (length tr) u (i = 0) s = (exc, s1)"
    by (cases "attempt_body env (length tr) u (i = 0) s")
  from assms have c: "c = (if exc = None then Return_True else Continue)" and s': "s' = s1"
    by (simp_all add: one_attempt_eq Let_def body u_def [symmetric])
  show "parsed_url s' = parsed_url s" "domain s' = domain s" "features s' = features s"
    using attempt_body_frame(1-3) [OF body] s' by simp_all
  show "soup s' = soup s" if "c = Continue"
  proof -
    from that c have "exc \<noteq> None" by (auto split: if_splits)
    then show ?thesis using attempt_body_frame(4) [OF body] s' by simp
  qed
qed

lemma attempts_loop_frame:
  "attempts_loop env mr sch js tr s = (c, tr', s') \<Longrightarrow>
     parsed_url s' = parsed_url s \<and> domain s' = domain s \<and> features s' = features s \<and>
     (c = Continue \<longrightarrow> soup s' = soup s)"
proof (induction js arbitrary: tr s)
  case Nil
  then show ?case by simp
next
  case (Cons i js)
  obtain c1 tr1 s1 where step: "one_attempt env mr sch i tr s = (c1, tr1, s1)"
    by (cases "one_attempt env mr sch i tr s")
  note fr = one_attempt_frame [OF step]
  show ?case
  proof (cases "c1 = Continue")
    case True
    with Cons.prems step have "attempts_loop env mr sch js tr1 s1 = (c, tr', s')" by simp
    from Cons.IH [OF this] fr True show ?thesis by simp
  next
    case False
    with Cons.prems step have "c = c1" "s' = s1" by (cases c1; simp)+
    with fr False show ?thesis by simp
  qed
qed

lemma schemes_loop_frame:
  "schemes_loop env mr schs tr s = (c, tr', s') \<Longrightarrow>
     parsed_url s' = parsed_url s \<and> domain s' = domain s \<and> features s' = features s \<and>
     (c = Continue \<longrightarrow> soup s' = soup s)"
proof (induction schs arbitrary: tr s)
  case Nil
  then show ?case by simp
next
  case (Cons sch schs)
  obtain c1 tr1 s1 where
    inner: "attempts_loop env mr sch (attempt_range mr) tr s = (c1, tr1, s1)"
    by (cases "attempts_loop env mr sch (attempt_range mr) tr s")
  note fr = attempts_loop_frame [OF inner]
  show ?case
  proof (cases "c1 = Continue")
    case True
    with Cons.prems inner have "schemes_loop env mr schs tr1 s1 = (c, tr', s')" by simp
    from Cons.IH [OF this] fr True show ?thesis by simp
  next
    case False
    with Cons.prems inner have "c = c1" "s' = s1" by (cases c1; simp)+
    with fr False show ?thesis by simp
  qed
qed

lemma schemes_loop_shape:
  "schemes_loop env mr schs tr s = (c, tr', s') \<Longrightarrow>
     \<exists>new. tr' = tr @ new \<and>
       run_shape c new (concat (map (scheme_schedule (parsed_url s) mr) schs))"
proof (induction schs arbitrary: tr s)
  case Nil
  then show ?case by (simp add: run_shape_Nil)
next
  case (Cons sch schs)
  obtain c1 tr1 s1 where
    inner: "attempts_loop env mr sch (attempt_range mr) tr s = (c1, tr1, s1)"
    by (cases "attempts_loop env mr sch (attempt_range mr) tr s")
  from attempts_loop_shape [OF inner] obtain n1 where
    n1: "tr1 = tr @ n1" "run_shape c1 n1 (scheme_schedule (parsed_url s) mr sch)"
    by (auto simp: scheme_schedule_def)
  from attempts_loop_frame [OF inner] have p1: "parsed_url s1 = parsed_url s" by simp
  show ?case
  proof (cases c1)
    case Continue
    with Cons.prems inner have "schemes_loop env mr schs tr1 s1 = (c, tr', s')" by simp
    from Cons.IH [OF this] obtain n2 where
      n2: "tr' = tr1 @ n2"
        "run_shape c n2 (concat (map (scheme_schedule (parsed_url s) mr) schs))"
      by (auto simp: p1)
    from n1(2) n2(2) Continue have "run_shape c (n1 @ n2)
        (scheme_schedule (parsed_url s) mr sch @
         concat (map (scheme_schedule (parsed_url s) mr) schs))"
      by (simp only: run_shape_append)
    with n1(1) n2(1) show ?thesis by auto
  next
    case Return_True
    with Cons.prems inner have "c = Return_True" "tr' = tr1" by simp_all
    moreover from n1(2) Return_True have "run_shape Return_True n1
        (scheme_schedule (parsed_url s) mr sch @
         concat (map (scheme_schedule (parsed_url s) mr) schs))"
      by (simp only: run_shape_extend)
    ultimately show ?thesis using n1(1) by auto
  next
    case (Propagate e)
    with n1(2) show ?thesis by (simp add: run_shape_not_Propagate)
  qed
qed

lemma fetch_website_shape:
  assumes "fetch_website env mr s = (r, tr, s')"
  shows "\<exists>c. schemes_loop env mr (schemes_to_try (parsed_url s)) [] s = (c, tr, s') \<and>
           run_shape c tr (schedule (parsed_url s) mr) \<and>
           (c = Return_True \<and> r = Inr True \<or> c = Continue \<and> r = Inr False)"
proof -
  obtain c tr1 s1 where
    loop: "schemes_loop env mr (schemes_to_try (parsed_url s)) [] s = (c, tr1, s1)"
    by (cases "schemes_loop env mr (schemes_to_try (parsed_url s)) [] s")
  from schemes_loop_shape [OF loop] have sh: "run_shape c tr1 (schedule (parsed_url s) mr)"
    by (simp add: schedule_def)
  show ?thesis
  proof (cases c)
    case Return_True
    with assms loop sh show ?thesis by (simp add: fetch_website_def)
  next
    case Continue
    with assms loop sh show ?thesis by (simp add: fetch_website_def)
  next
    case (Propagate e)
    with sh show ?thesis by (simp add: run_shape_not_Propagate)
  qed
qed

lemma scheme_schedule_nth:
  "j < length (scheme_schedule p mr sch) \<Longrightarrow>
     scheme_schedule p mr sch ! j = (request_url p sch, j = 0, j)"
  by (simp add: scheme_schedule_def attempt_range_def)

lemma length_scheme_schedule: "length (scheme_schedule p mr sch) = nat (mr + 1)"
  by (simp add: scheme_schedule_def attempt_range_def)

lemma blocks_next:
  "j < length (concat (map (scheme_schedule p mr) schs)) \<Longrightarrow>
   concat (map (scheme_schedule p mr) schs) ! j = (u, v, i) \<Longrightarrow> int i < mr \<Longrightarrow>
     Suc j < length (concat (map (scheme_schedule p mr) schs)) \<and>
     concat (map (scheme_schedule p mr) schs) ! Suc j = (u, False, Suc i)"
proof (induction schs arbitrary: j)
  case Nil
  then show ?case by simp
next
  case (Cons sch schs)
  let ?b = "scheme_schedule p mr sch"
  let ?rest = "concat (map (scheme_schedule p mr) schs)"
  show ?case
  proof (cases "j < length ?b")
    case True
    with Cons.prems(2) have "?b ! j = (u, v, i)" by (simp add: nth_append)
    with True have eq: "u = request_url p sch" "i = j" by (simp_all add: scheme_schedule_nth)
    with Cons.prems(3) have lt: "Suc j < length ?b" by (simp add: length_scheme_schedule)
    then have "(?b @ ?rest) ! Suc j = ?b ! Suc j" by (simp add: nth_append)
    with lt eq show ?thesis by (simp add: scheme_schedule_nth)
  next
    case False
    define k where "k = j - length ?b"
    from False have j: "j = length ?b + k" by (simp add: k_def)
    from Cons.prems(1) j have "k < length ?rest" by simp
    moreover from Cons.prems(2) j have "?rest ! k = (u, v, i)" by (simp add: nth_append)
    ultimately have "Suc k < length ?rest \<and> ?rest ! Suc k = (u, False, Suc i)"
      using Cons.prems(3) by (rule Cons.IH)
    moreover have "(?b @ ?rest) ! Suc j = ?rest ! Suc k" using j by (simp add: nth_append)
    ultimately show ?thesis using j by simp
  qed
qed

lemma schedule_next:
  "j < length (schedule p mr) \<Longrightarrow> schedule p mr ! j = (u, v, i) \<Longrightarrow> int i < mr \<Longrightarrow>
     Suc j < length (schedule p mr) \<and> schedule p mr ! Suc j = (u, False, Suc i)"
  unfolding schedule_def by (rule blocks_next)

lemma schedule_verify:
  "(u, v, i) \<in> set (schedule p mr) \<Longrightarrow> v = (i = 0)"
  by (auto simp: schedule_def scheme_schedule_def)

lemma run_shape_nth:
  assumes "run_shape c tr planned" and "j < length tr"
  shows "request_of (tr ! j) = planned ! j"
proof -
  from assms(1) have "map request_of tr = take (length tr) planned"
    by (simp add: run_shape_def)
  then have "map request_of tr ! j = take (length tr) planned ! j" by simp
  with assms(2) show ?thesis by simp
qed

lemma run_shape_failed_not_last:
  assumes "run_shape c tr planned" and "j < length tr" and "raised (tr ! j) \<noteq> None"
    and "Suc j < length planned"
  shows "Suc j < length tr"
proof (rule ccontr)
  assume "\<not> Suc j < length tr"
  with assms(2) have ne: "tr \<noteq> []" and jl: "j = length tr - 1" by auto
  then have last: "tr \<noteq> []" "tr ! j = last tr"
    by (simp_all add: last_conv_nth)
  have "length tr = length planned"
  proof (cases c)
    case Return_True
    with assms(1) have "raised (last tr) = None" by (simp add: run_shape_def)
    with last assms(3) show ?thesis by simp
  next
    case Continue
    with assms(1) show ?thesis by (simp add: run_shape_def)
  next
    case (Propagate e)
    with assms(1) show ?thesis by (simp add: run_shape_def)
  qed
  with assms(4) \<open>\<not> Suc j < length tr\<close> show False by simp
qed

text \<open>
  C1, as the code has it. The requests of a run are the first ones of the schedule, which
  the parsed URL and \<^verbatim>\<open>max_retries\<close> fix alone; every pass, of every scheme, is made
  with verification exactly when its attempt index is 0; and a pass that raised
  anything at all, at an index below \<^verbatim>\<open>max_retries\<close>, is followed by a pass on the same
  URL, at the next index, without verification.
\<close>

theorem fetch_website_verification_policy:
  assumes "fetch_website env max_retries s = (r, tr, s')"
  shows "prefix (map request_of tr) (schedule (parsed_url s) max_retries) \<and>
    (\<forall>a \<in> set tr. req_verify a = (req_attempt a = 0)) \<and>
    (\<forall>j < length tr.
        raised (tr ! j) \<noteq> None \<and> int (req_attempt (tr ! j)) < max_retries \<longrightarrow>
        Suc j < length tr \<and> req_url (tr ! Suc j) = req_url (tr ! j) \<and>
        req_attempt (tr ! Suc j) = Suc (req_attempt (tr ! j)) \<and> \<not> req_verify (tr ! Suc j))"
proof -
  let ?sched = "schedule (parsed_url s) max_retries"
  from fetch_website_shape [OF assms] obtain c where sh: "run_shape c tr ?sched"
    by blast
  have pre: "prefix (map request_of tr) ?sched"
    using sh by (simp add: run_shape_def take_is_prefix)
  have ver: "req_verify a = (req_attempt a = 0)" if "a \<in> set tr" for a
  proof -
    from pre have "set (map request_of tr) \<subseteq> set ?sched" by (rule set_mono_prefix)
    moreover from that have "request_of a \<in> set (map request_of tr)" by simp
    ultimately have "request_of a \<in> set ?sched" by (rule subsetD)
    then show ?thesis by (auto simp: request_of_def dest: schedule_verify)
  qed
  have nxt: "Suc j < length tr \<and> req_url (tr ! Suc j) = req_url (tr ! j) \<and>
        req_attempt (tr ! Suc j) = Suc (req_attempt (tr ! j)) \<and> \<not> req_verify (tr ! Suc j)"
    if j: "j < length tr" and f: "raised (tr ! j) \<noteq> None"
      and lt: "int (req_attempt (tr ! j)) < max_retries" for j
  proof -
    from sh have "length tr \<le> length ?sched" by (rule run_shape_length)
    with j have js: "j < length ?sched" by simp
    have at: "?sched ! j = (req_url (tr ! j), req_verify (tr ! j), req_attempt (tr ! j))"
      using run_shape_nth [OF sh j] by (simp add: request_of_def)
    from schedule_next [OF js at lt] have
      n: "Suc j < length ?sched"
        "?sched ! Suc j = (req_url (tr ! j), False, Suc (req_attempt (tr ! j)))"
      by simp_all
    have sj: "Suc j < length tr" using sh j f n(1) by (rule run_shape_failed_not_last)
    from run_shape_nth [OF sh sj] n(2) show ?thesis using sj by (simp add: request_of_def)
  qed
  from pre ver nxt show ?thesis by blast
qed

lemma fetch_website_returns: "\<exists>b. fst (fetch_website env mr s) = Inr b"
proof -
  obtain r tr s' where f: "fetch_website env mr s = (r, tr, s')"
    by (cases "fetch_website env mr s")
  from fetch_website_shape [OF f] show ?thesis using f by auto
qed

lemma fetch_website_False:
  assumes "fetch_website env mr s = (Inr False, tr, s')"
  shows "soup s' = soup s" and "features s' = features s"
    and "parsed_url s' = parsed_url s" and "domain s' = domain s"
    and "list_all (\<lambda>a. raised a \<noteq> None) tr"
    and "map request_of tr = schedule (parsed_url s) mr"
proof -
  from fetch_website_shape [OF assms] have
    loop: "schemes_loop env mr (schemes_to_try (parsed_url s)) [] s = (Continue, tr, s')"
    and sh: "run_shape Continue tr (schedule (parsed_url s) mr)"
    by auto
  from schemes_loop_frame [OF loop]
  show "soup s' = soup s" "features s' = features s"
    "parsed_url s' = parsed_url s" "domain s' = domain s"
    by simp_all
  from sh show "list_all (\<lambda>a. raised a \<noteq> None) tr"
    "map request_of tr = schedule (parsed_url s) mr"
    by (simp_all add: run_shape_def)
qed

lemma run_shape_all_raised:
  assumes "run_shape c tr planned"
  shows "c = Continue \<longleftrightarrow> list_all (\<lambda>a. raised a \<noteq> None) tr"
proof (cases c)
  case Return_True
  with assms have "tr \<noteq> []" "raised (last tr) = None" by (simp_all add: run_shape_def)
  then have "\<not> list_all (\<lambda>a. raised a \<noteq> None) tr"
    by (auto simp: list_all_iff dest: last_in_set)
  with Return_True show ?thesis by simp
next
  case Continue
  with assms show ?thesis by (simp add: run_shape_def)
next
  case (Propagate e)
  with assms show ?thesis by (simp add: run_shape_def)
qed

lemma gets_failed_from_append:
  "gets_failed_from env n (xs @ ys) \<longleftrightarrow>
     gets_failed_from env n xs \<and> gets_failed_from env (n + length xs) ys"
  by (induction xs arbitrary: n) auto

lemma content_kept_Nil: "content_kept env n [] Continue s s"
  by (simp add: content_kept_def)

lemma content_kept_append:
  assumes "content_kept env n n1 Continue s s1"
    and "content_kept env (n + length n1) n2 c s1 s2"
  shows "content_kept env n (n1 @ n2) c s s2"
  using assms by (auto simp: content_kept_def gets_failed_from_append)

lemma attempt_body_content:
  assumes "attempt_body env n u v s = (exc, s')"
  shows "\<not> http_failure (session_get env n u v) \<Longrightarrow> html_content s' \<noteq> None"
    and "html_content s \<noteq> None \<Longrightarrow> html_content s' \<noteq> None"
  using assms
  by (auto simp: attempt_body_def http_failure_def Let_def split: sum.splits option.splits)

lemma one_attempt_content:
  assumes "one_attempt env mr sch i tr s = (c, tr', s')"
  shows "\<exists>a. tr' = tr @ [a] \<and> content_kept env (length tr) [a] c s s'"
proof -
  define u where "u = request_url (parsed_url s) sch"
  obtain exc s1 where body: "attempt_body env (length tr) u (i = 0) s = (exc, s1)"
    by (cases "attempt_body env (length tr) u (i = 0) s")
  define a where "a = \<lparr>req_url = u, req_verify = (i = 0), req_attempt = i,
      head_raised = (session_head env (length tr) u (i = 0) \<noteq> None), raised = exc\<rparr>"
  from assms have c: "c = (if exc = None then Return_True else Continue)"
    and tr': "tr' = tr @ [a]" and s': "s' = s1"
    by (simp_all add: one_attempt_eq Let_def body a_def u_def [symmetric])
  have g: "gets_failed_from env (length tr) [a] \<longleftrightarrow>
      http_failure (session_get env (length tr) u (i = 0))"
    by (simp add: a_def)
  have "content_kept env (length tr) [a] c s s'"
  proof (cases "http_failure (session_get env (length tr) u (i = 0))")
    case True
    from attempt_body_http_failure [OF body True] attempt_body_content(2) [OF body]
    show ?thesis using c s' g True by (simp add: content_kept_def)
  next
    case False
    from attempt_body_content [OF body] show ?thesis
      using s' g False by (simp add: content_kept_def)
  qed
  with tr' show ?thesis by blast
qed

lemma attempts_loop_content:
  "attempts_loop env mr sch js tr s = (c, tr', s') \<Longrightarrow>
     \<exists>new. tr' = tr @ new \<and> content_kept env (length tr) new c s s'"
proof (induction js arbitrary: tr s)
  case Nil
  then show ?case by (simp add: content_kept_Nil)
next
  case (Cons i js)
  obtain c1 tr1 s1 where step: "one_attempt env mr sch i tr s = (c1, tr1, s1)"
    by (cases "one_attempt env mr sch i tr s")
  from one_attempt_content [OF step] obtain a where
    a: "tr1 = tr @ [a]" "content_kept env (length tr) [a] c1 s s1"
    by blast
  show ?case
  proof (cases "c1 = Continue")
    case True
    with Cons.prems step have "attempts_loop env mr sch js tr1 s1 = (c, tr', s')" by simp
    from Cons.IH [OF this] obtain new where
      new: "tr' = tr1 @ new" "content_kept env (length tr1) new c s1 s'"
      by blast
    from a True new(2) have "content_kept env (length tr) ([a] @ new) c s s'"
      by (intro content_kept_append) simp_all
    with a(1) new(1) show ?thesis by auto
  next
    case False
    with Cons.prems step have "c = c1" "tr' = tr1" "s' = s1" by (cases c1; simp)+
    with a show ?thesis by blast
  qed
qed

lemma schemes_loop_content:
  "schemes_loop env mr schs tr s = (c, tr', s') \<Longrightarrow>
     \<exists>new. tr' = tr @ new \<and> content_kept env (length tr) new c s s'"
proof (induction schs arbitrary: tr s)
  case Nil
  then show ?case by (simp add: content_kept_Nil)
next
  case (Cons sch schs)
  obtain c1 tr1 s1 where
    inner: "attempts_loop env mr sch (attempt_range mr) tr s = (c1, tr1, s1)"
    by (cases "attempts_loop env mr sch (attempt_range mr) tr s")
  from attempts_loop_content [OF inner] obtain n1 where
    n1: "tr1 = tr @ n1" "content_kept env (length tr) n1 c1 s s1"
    by blast
  show ?case
  proof (cases "c1 = Continue")
    case True
    with Cons.prems inner have "schemes_loop env mr schs tr1 s1 = (c, tr', s')" by simp
    from Cons.IH [OF this] obtain n2 where
      n2: "tr' = tr1 @ n2" "content_kept env (length tr1) n2 c s1 s'"
      by blast
    from n1 True n2(2) have "content_kept env (length tr) (n1 @ n2) c s s'"
      by (intro content_kept_append) simp_all
    with n1(1) n2(1) show ?thesis by auto
  next
    case False
    with Cons.prems inner have "c = c1" "tr' = tr1" "s' = s1" by (cases c1; simp)+
    with n1 show ?thesis by blast
  qed
qed

text \<open>
  C6, as the code has it. \<^verbatim>\<open>fetch_website\<close> on a new object returns a boolean and
  never raises, whatever the HTTP client and the parser do. It returns \<^verbatim>\<open>False\<close>
  exactly when every pass raised; then all the passes of the schedule were made and
  \<^verbatim>\<open>self.soup\<close> is still \<^verbatim>\<open>None\<close>. \<^verbatim>\<open>self.html_content\<close> is still \<^verbatim>\<open>None\<close>
  afterwards exactly when every GET that the run made failed in the HTTP client (it
  raised, or its status was an error), and then \<^verbatim>\<open>False\<close> is returned.
\<close>

theorem fetch_website_all_fail:
  "case fetch_website env max_retries (init env raw) of
     (r, tr, s') \<Rightarrow>
       (\<exists>b. r = Inr b) \<and>
       (r = Inr False \<longleftrightarrow> list_all (\<lambda>a. raised a \<noteq> None) tr) \<and>
       (r = Inr False \<longrightarrow>
          soup s' = None \<and> map request_of tr = schedule (parsed_url s') max_retries) \<and>
       (gets_failed env tr \<longrightarrow> r = Inr False) \<and>
       (html_content s' = None \<longleftrightarrow> gets_failed env tr)"
proof -
  let ?s = "init env raw"
  obtain r tr s' where f: "fetch_website env max_retries ?s = (r, tr, s')"
    by (cases "fetch_website env max_retries ?s")
  have init: "html_content ?s = None" "soup ?s = None" by (simp_all add: init_def Let_def)
  from fetch_website_shape [OF f] obtain c where
    loop: "schemes_loop env max_retries (schemes_to_try (parsed_url ?s)) [] ?s = (c, tr, s')"
    and sh: "run_shape c tr (schedule (parsed_url ?s) max_retries)"
    and r: "c = Return_True \<and> r = Inr True \<or> c = Continue \<and> r = Inr False"
    by blast
  from schemes_loop_content [OF loop] have ck: "content_kept env 0 tr c ?s s'" by simp
  have a: "\<exists>b. r = Inr b" using r by auto
  have b: "r = Inr False \<longleftrightarrow> list_all (\<lambda>a. raised a \<noteq> None) tr"
    using run_shape_all_raised [OF sh] r by auto
  have c: "soup s' = None \<and> map request_of tr = schedule (parsed_url s') max_retries"
    if "r = Inr False"
  proof -
    from that f have "fetch_website env max_retries ?s = (Inr False, tr, s')" by simp
    from fetch_website_False(1,3,6) [OF this] init show ?thesis by simp
  qed
  have d: "r = Inr False" if "gets_failed env tr"
    using that ck r by (auto simp: content_kept_def gets_failed_def)
  have e: "html_content s' = None \<longleftrightarrow> gets_failed env tr"
    using ck init by (auto simp: content_kept_def gets_failed_def)
  from a b c d e show ?thesis unfolding f by (simp del: not_None_eq)
qed

lemma failing_run:
  "fst (fetch_website failing_env 2 (init failing_env (lit ''example.com''))) = Inr False"
  "fst (snd (fetch_website failing_env 2 (init failing_env (lit ''example.com'')))) =
      [\<lparr>req_url = lit ''http://example.com'', req_verify = True, req_attempt = 0,
         head_raised = True, raised = Some Timeout\<rparr>,
       \<lparr>req_url = lit ''http://example.com'', req_verify = False, req_attempt = 1,
         head_raised = True, raised = Some Timeout\<rparr>,
       \<lparr>req_url = lit ''http://example.com'', req_verify = False, req_attempt = 2,
         head_raised = True, raised = Some Timeout\<rparr>,
       \<lparr>req_url = lit ''https://example.com'', req_verify = True, req_attempt = 0,
         head_raised = True, raised = Some Timeout\<rparr>,
       \<lparr>req_url = lit ''https://example.com'', req_verify = False, req_attempt = 1,
         head_raised = True, raised = Some Timeout\<rparr>,
       \<lparr>req_url = lit ''https://example.com'', req_verify = False, req_attempt = 2,
         head_raised = True, raised = Some Timeout\<rparr>]"
  "gets_failed failing_env
     (fst (snd (fetch_website failing_env 2 (init failing_env (lit ''example.com'')))))"
  by code_simp+

theorem fetch_website_all_fail_witness:
  "gets_failed failing_env
     (fst (snd (fetch_website failing_env 2 (init failing_env (lit ''example.com''))))) \<and>
   fst (fetch_website failing_env 2 (init failing_env (lit ''example.com''))) = Inr False \<and>
   html_content (snd (snd (fetch_website failing_env 2 (init failing_env (lit ''example.com'')))))
     = None \<and>
   soup (snd (snd (fetch_website failing_env 2 (init failing_env (lit ''example.com'')))))
     = None"
  using fetch_website_all_fail
    [where env = failing_env and max_retries = 2 and raw = "lit ''example.com''"]
    failing_run(3)
  by (simp add: split_beta)

text \<open>
  C6 as stated fails: when every GET gets a page with status 200 and the parser raises on
  it, every pass fails and \<^verbatim>\<open>False\<close> is returned, but \<^verbatim>\<open>self.html_content\<close>, which was
  \<^verbatim>\<open>None\<close>, holds the text of the page: it is assigned before the parser is called.
\<close>

theorem content_set_when_parser_raises:
  "html_content (init unparsable_env (lit ''example.com'')) = None \<and>
   fst (fetch_website unparsable_env 2 (init unparsable_env (lit ''example.com''))) = Inr False \<and>
   map raised
     (fst (snd (fetch_website unparsable_env 2 (init unparsable_env (lit ''example.com''))))) =
     [Some OtherException, Some OtherException, Some OtherException,
      Some OtherException, Some OtherException, Some OtherException] \<and>
   html_content
     (snd (snd (fetch_website unparsable_env 2 (init unparsable_env (lit ''example.com'')))))
     = Some (lit ''<![ x'')"
proof -
  have "html_content (init unparsable_env (lit ''example.com'')) = None"
    by (simp add: init_def Let_def)
  moreover have
    "fst (fetch_website unparsable_env 2 (init unparsable_env (lit ''example.com'')))
       = Inr False"
    by code_simp
  moreover have "map raised
     (fst (snd (fetch_website unparsable_env 2 (init unparsable_env (lit ''example.com''))))) =
     [Some OtherException, Some OtherException, Some OtherException,
      Some OtherException, Some OtherException, Some OtherException]"
    by code_simp
  moreover have "html_content
     (snd (snd (fetch_website unparsable_env 2 (init unparsable_env (lit ''example.com'')))))
     = Some (lit ''<![ x'')"
    by code_simp
  ultimately show ?thesis by simp
qed

text \<open>
  C1 as stated fails: when every GET times out, the pass after the first one is made
  without verification although the first did not fail with a TLS or proxy error.
\<close>

theorem relaxed_retry_after_timeout:
  "fst (snd (fetch_website failing_env 2 (init failing_env (lit ''example.com'')))) =
      [\<lparr>req_url = lit ''http://example.com'', req_verify = True, req_attempt = 0,
         head_raised = True, raised = Some Timeout\<rparr>,
       \<lparr>req_url = lit ''http://example.com'', req_verify = False, req_attempt = 1,
         head_raised = True, raised = Some Timeout\<rparr>,
       \<lparr>req_url = lit ''http://example.com'', req_verify = False, req_attempt = 2,
         head_raised = True, raised = Some Timeout\<rparr>,
       \<lparr>req_url = lit ''https://example.com'', req_verify = True, req_attempt = 0,
         head_raised = True, raised = Some Timeout\<rparr>,
       \<lparr>req_url = lit ''https://example.com'', req_verify = False, req_attempt = 1,
         head_raised = True, raised = Some Timeout\<rparr>,
       \<lparr>req_url = lit ''https://example.com'', req_verify = False, req_attempt = 2,
         head_raised = True, raised = Some Timeout\<rparr>] \<and>
   \<not> is_SSLError_or_ProxyError Timeout \<and>
   \<not> relaxed_only_after_tls_error
       (fst (snd (fetch_website failing_env 2 (init failing_env (lit ''example.com'')))))"
  by (simp add: failing_run)

theorem fetch_website_verification_policy_witness:
  "(0::nat) < length (fst (snd (fetch_website failing_env 2 (init failing_env (lit ''example.com''))))) \<and>
   raised (fst (snd (fetch_website failing_env 2 (init failing_env (lit ''example.com'')))) ! 0)
     = Some Timeout \<and>
   int (req_attempt (fst (snd (fetch_website failing_env 2 (init failing_env (lit ''example.com'')))) ! 0)) < 2 \<and>
   req_url (fst (snd (fetch_website failing_env 2 (init failing_env (lit ''example.com'')))) ! Suc 0)
     = lit ''http://example.com'' \<and>
   req_attempt (fst (snd (fetch_website failing_env 2 (init failing_env (lit ''example.com'')))) ! Suc 0)
     = Suc 0 \<and>
   \<not> req_verify (fst (snd (fetch_website failing_env 2 (init failing_env (lit ''example.com'')))) ! Suc 0)"
proof -
  have run: "fetch_website failing_env 2 (init failing_env (lit ''example.com'')) =
     (fst (fetch_website failing_env 2 (init failing_env (lit ''example.com''))),
      fst (snd (fetch_website failing_env 2 (init failing_env (lit ''example.com'')))),
      snd (snd (fetch_website failing_env 2 (init failing_env (lit ''example.com'')))))"
    by simp
  from fetch_website_verification_policy [OF run] show ?thesis
    by (simp add: failing_run)
qed

subsection \<open>The lexical feature deriver\<close>

lemma nullable_words: "nullable r \<longleftrightarrow> [] \<in> words r"
  by (induction r) (auto intro: repetitions.no_piece)

lemma repetitions_ConsD:
  "x \<in> repetitions L \<Longrightarrow> x = c # w \<Longrightarrow>
     \<exists>u v. w = u @ v \<and> c # u \<in> L \<and> v \<in> repetitions L"
proof (induction arbitrary: w rule: repetitions.induct)
  case no_piece
  then show ?case by simp
next
  case (one_more u v)
  show ?case
  proof (cases u)
    case Nil
    with one_more show ?thesis by simp
  next
    case (Cons a u')
    with one_more.prems have "a = c" "w = u' @ v" by simp_all
    with Cons one_more.hyps show ?thesis by blast
  qed
qed

lemma repetitions_Cons:
  "c # w \<in> repetitions L \<longleftrightarrow> (\<exists>u v. w = u @ v \<and> c # u \<in> L \<and> v \<in> repetitions L)"
proof
  assume "c # w \<in> repetitions L"
  then show "\<exists>u v. w = u @ v \<and> c # u \<in> L \<and> v \<in> repetitions L"
    by (rule repetitions_ConsD) simp
next
  assume "\<exists>u v. w = u @ v \<and> c # u \<in> L \<and> v \<in> repetitions L"
  then obtain u v where "w = u @ v" "c # u \<in> L" "v \<in> repetitions L" by blast
  then show "c # w \<in> repetitions L"
    using repetitions.one_more [of "c # u" L v] by simp
qed

lemma deriv_words: "w \<in> words (deriv c r) \<longleftrightarrow> c # w \<in> words r"
proof (induction r arbitrary: w)
  case (Seq r q)
  show ?case
  proof (cases "nullable r")
    case True
    then have "[] \<in> words r" by (simp add: nullable_words)
    then show ?thesis using Seq
      by (auto simp: True Cons_eq_append_conv)
  next
    case False
    then have "[] \<notin> words r" by (simp add: nullable_words)
    then show ?thesis using Seq
      by (auto simp: False Cons_eq_append_conv)
  qed
next
  case (Star r)
  then show ?case by (auto simp: repetitions_Cons)
qed auto

lemma fullmatch_words: "fullmatch r s \<longleftrightarrow> s \<in> words r"
  by (induction s arbitrary: r) (simp_all add: nullable_words deriv_words)

lemma words_Seq: "s \<in> words (Seq r q) \<longleftrightarrow> (\<exists>u v. s = u @ v \<and> u \<in> words r \<and> v \<in> words q)"
  by auto

lemma words_Class: "u \<in> words (Class P) \<longleftrightarrow> (\<exists>c. u = [c] \<and> P c)"
  by auto

lemma repetitions_Class: "w \<in> repetitions (words (Class P)) \<longleftrightarrow> list_all P w"
proof (induction w)
  case Nil
  show ?case by (simp add: repetitions.no_piece)
next
  case (Cons c w)
  have "c # w \<in> repetitions (words (Class P)) \<longleftrightarrow>
      (\<exists>u v. w = u @ v \<and> c # u \<in> words (Class P) \<and> v \<in> repetitions (words (Class P)))"
    by (rule repetitions_Cons)
  also have "\<dots> \<longleftrightarrow> P c \<and> w \<in> repetitions (words (Class P))"
    unfolding words_Class by auto
  finally show ?case using Cons by simp
qed

lemma words_Plus_digits: "w \<in> words (Plus (Class (is_digit nd))) \<longleftrightarrow> digits nd w"
proof -
  let ?P = "is_digit nd"
  have "w \<in> words (Plus (Class ?P)) \<longleftrightarrow>
      (\<exists>u v. w = u @ v \<and> u \<in> words (Class ?P) \<and> v \<in> repetitions (words (Class ?P)))"
    unfolding Plus_def words_Seq by simp
  also have "\<dots> \<longleftrightarrow> (\<exists>c v. w = c # v \<and> ?P c \<and> list_all ?P v)"
    unfolding words_Class repetitions_Class
  proof
    assume "\<exists>u v. w = u @ v \<and> (\<exists>c. u = [c] \<and> ?P c) \<and> list_all ?P v"
    then show "\<exists>c v. w = c # v \<and> ?P c \<and> list_all ?P v" by auto
  next
    assume "\<exists>c v. w = c # v \<and> ?P c \<and> list_all ?P v"
    then obtain c v where "w = c # v" "?P c" "list_all ?P v" by blast
    then have "w = [c] @ v \<and> (\<exists>c'. [c] = [c'] \<and> ?P c') \<and> list_all ?P v"
      by simp
    then show "\<exists>u v. w = u @ v \<and> (\<exists>c. u = [c] \<and> ?P c) \<and> list_all ?P v"
      by blast
  qed
  also have "\<dots> \<longleftrightarrow> digits nd w"
    by (cases w) (simp_all add: digits_def)
  finally show ?thesis .
qed

lemma words_digits_dot:
  "s \<in> words (Seq (Plus (Class (is_digit nd))) (Seq (Lit 46) r)) \<longleftrightarrow>
     (\<exists>a t. digits nd a \<and> t \<in> words r \<and> s = a @ [46] @ t)"
proof -
  have "s \<in> words (Seq (Plus (Class (is_digit nd))) (Seq (Lit 46) r)) \<longleftrightarrow>
      (\<exists>a v. s = a @ v \<and> a \<in> words (Plus (Class (is_digit nd))) \<and>
         (\<exists>u t. v = u @ t \<and> u \<in> words (Lit 46) \<and> t \<in> words r))"
    by (simp only: words_Seq)
  also have "\<dots> \<longleftrightarrow> (\<exists>a t. digits nd a \<and> t \<in> words r \<and> s = a @ [46] @ t)"
    unfolding words_Plus_digits by auto
  finally show ?thesis .
qed

lemma words_ip_pattern: "s \<in> words (ip_pattern nd) \<longleftrightarrow> dotted_quad nd s"
proof -
  have "s \<in> words (ip_pattern nd) \<longleftrightarrow>
      (\<exists>a t. digits nd a \<and>
         (\<exists>b t'. digits nd b \<and>
            (\<exists>c d. digits nd c \<and> digits nd d \<and> t' = c @ [46] @ d) \<and> t = b @ [46] @ t') \<and>
         s = a @ [46] @ t)"
    unfolding ip_pattern_def by (simp only: words_digits_dot words_Plus_digits)
  also have "\<dots> \<longleftrightarrow> dotted_quad nd s"
    unfolding dotted_quad_def by blast
  finally show ?thesis .
qed

lemma ip_pattern_meaning:
  "re_match_anchored (ip_pattern nd) s \<longleftrightarrow>
     dotted_quad nd s \<or> (\<exists>t. s = t @ [10] \<and> dotted_quad nd t)"
proof -
  have "(s \<noteq> [] \<and> last s = 10 \<and> dotted_quad nd (butlast s)) \<longleftrightarrow>
      (\<exists>t. s = t @ [10] \<and> dotted_quad nd t)"
    by (cases s rule: rev_cases) auto
  then show ?thesis
    by (simp add: re_match_anchored_def fullmatch_words words_ip_pattern)
qed

lemma ip_examples:
  "re_match_anchored (ip_pattern nd) (lit ''192.168.1.1'')"
  "\<not> re_match_anchored (ip_pattern nd) (lit ''example.com'')"
  by (simp_all add: re_match_anchored_def ip_pattern_def Plus_def is_digit_def lit_def)

text \<open>
  With the Arabic-Indic digits in the table, a netloc of four such digits with full
  stops between them matches, as it does for \<^verbatim>\<open>re.match\<close>; with a table that has none
  it does not.
\<close>

lemma ip_example_arabic_indic:
  "re_match_anchored (ip_pattern arabic_indic) [1633, 46, 1634, 46, 1635, 46, 1636]"
  "\<not> re_match_anchored (ip_pattern (\<lambda>c. False)) [1633, 46, 1634, 46, 1635, 46, 1636]"
  by (simp_all add: re_match_anchored_def ip_pattern_def Plus_def is_digit_def
      arabic_indic_def)

text \<open>
  C7. \<^verbatim>\<open>_extract_url_features\<close> sets \<^verbatim>\<open>having_ip_address\<close> to -1 when
  \<^verbatim>\<open>re.match\<close> finds the pattern \<^verbatim>\<open>^\d+\.\d+\.\d+\.\d+$\<close> in the netloc, and to 1
  otherwise, whether or not the later read of \<^verbatim>\<open>port\<close> raises, and whatever the
  table of the decimal digits beyond ASCII is. The pattern is found exactly in the
  strings made of four non-empty runs of decimal digits with full stops between them,
  alone or followed by one newline at the end. The netloc \<^verbatim>\<open>192.168.1.1\<close> gives -1
  and \<^verbatim>\<open>example.com\<close> gives 1.
\<close>

theorem having_ip_address_spec:
  "features (snd (extract_url_features nd s)) ''having_ip_address'' =
     Some (if re_match_anchored (ip_pattern nd) (netloc (parsed_url s)) then - 1 else 1) \<and>
   (re_match_anchored (ip_pattern nd) (netloc (parsed_url s)) \<longleftrightarrow>
      dotted_quad nd (netloc (parsed_url s)) \<or>
      (\<exists>t. netloc (parsed_url s) = t @ [10] \<and> dotted_quad nd t)) \<and>
   features (snd (extract_url_features nd
       (s\<lparr>parsed_url := (parsed_url s)\<lparr>netloc := lit ''192.168.1.1''\<rparr>\<rparr>)))
     ''having_ip_address'' = Some (- 1) \<and>
   features (snd (extract_url_features nd
       (s\<lparr>parsed_url := (parsed_url s)\<lparr>netloc := lit ''example.com''\<rparr>\<rparr>)))
     ''having_ip_address'' = Some 1"
proof -
  have "features (snd (extract_url_features nd s')) ''having_ip_address'' =
     Some (if re_match_anchored (ip_pattern nd) (netloc (parsed_url s')) then - 1 else 1)" for s'
    by (simp add: extract_url_features_def Let_def split: sum.splits split del: if_split)
  then show ?thesis
    using ip_pattern_meaning [of nd "netloc (parsed_url s)"] by (simp add: ip_examples)
qed

lemma extract_url_features_idem:
  "extract_url_features nd (snd (extract_url_features nd s)) = extract_url_features nd s"
  by (cases "port (parsed_url s)")
     (auto simp: extract_url_features_def Let_def split del: if_split)

lemma extract_url_features_inputs:
  assumes "url s2 = url s" and "parsed_url s2 = parsed_url s" and "domain s2 = domain s"
  shows "fst (extract_url_features nd s2) = fst (extract_url_features nd s)"
    and "k \<in> set (if fst (extract_url_features nd s) = Inr () then lexical_keys
                    else take 7 lexical_keys) \<Longrightarrow>
         features (snd (extract_url_features nd s2)) k = features (snd (extract_url_features nd s)) k"
proof -
  show "fst (extract_url_features nd s2) = fst (extract_url_features nd s)"
    using assms
    by (cases "port (parsed_url s)") (simp_all add: extract_url_features_def Let_def split del: if_split)
  show "features (snd (extract_url_features nd s2)) k = features (snd (extract_url_features nd s)) k"
    if "k \<in> set (if fst (extract_url_features nd s) = Inr () then lexical_keys
                    else take 7 lexical_keys)"
  proof (cases "port (parsed_url s)")
    case (Inl e)
    then have "fst (extract_url_features nd s) \<noteq> Inr ()"
      by (simp add: extract_url_features_def Let_def split del: if_split)
    with that have "k \<in> set (take 7 lexical_keys)" by simp
    then have "k \<in> {''url_length'', ''having_ip_address'', ''shortining_service'',
        ''having_at_symbol'', ''double_slash_redirecting'', ''prefix_suffix'',
        ''having_sub_domain''}"
      by (simp add: lexical_keys_def)
    with Inl assms show ?thesis
      by (auto simp: extract_url_features_def Let_def split del: if_split)
  next
    case (Inr p)
    from that have "k \<in> set lexical_keys" by (auto split: if_splits dest: in_set_takeD)
    then have "k \<in> {''url_length'', ''having_ip_address'', ''shortining_service'',
        ''having_at_symbol'', ''double_slash_redirecting'', ''prefix_suffix'',
        ''having_sub_domain'', ''port'', ''https_token''}"
      by (simp add: lexical_keys_def)
    with Inr assms show ?thesis
      by (auto simp: extract_url_features_def Let_def split del: if_split)
  qed
qed

text \<open>
  C8. Running \<^verbatim>\<open>_extract_url_features\<close> a second time on the object the first run
  left gives the same outcome and the same object, so each key has the value the first
  run gave it. And two objects with the same URL string, parsed URL and domain get the
  same outcome and the same values for the keys the method assigns: all nine when it
  returns, the first seven when the read of \<^verbatim>\<open>port\<close> raises; nothing else of the
  object (the other dictionary entries, the response, the page) has a part in them.
  The table of decimal digits is the interpreter's, the same in every run.
\<close>

theorem extract_url_features_deterministic:
  "extract_url_features nd (snd (extract_url_features nd s)) = extract_url_features nd s \<and>
   (url s2 = url s \<and> parsed_url s2 = parsed_url s \<and> domain s2 = domain s \<longrightarrow>
      fst (extract_url_features nd s2) = fst (extract_url_features nd s) \<and>
      (\<forall>k \<in> set (if fst (extract_url_features nd s) = Inr () then lexical_keys
                    else take 7 lexical_keys).
         features (snd (extract_url_features nd s2)) k =
         features (snd (extract_url_features nd s)) k))"
  using extract_url_features_idem [of nd s] extract_url_features_inputs [where nd = nd and s = s]
  by blast

lemma extract_url_features_other:
  "soup (snd (extract_url_features nd s)) = soup s"
  "response (snd (extract_url_features nd s)) = response s"
  "k \<notin> set lexical_keys \<Longrightarrow> features (snd (extract_url_features nd s)) k = features s k"
  by (cases "port (parsed_url s)";
      simp add: extract_url_features_def Let_def lexical_keys_def split del: if_split)+

subsection \<open>The network signal deriver\<close>

lemma creation_date_step_frame:
  assumes "creation_date_step env d s = (exc, s1)"
  shows "dom (features s) \<subseteq> dom (features s1)"
    and "response s1 = response s" and "soup s1 = soup s"
    and "k \<notin> set network_keys \<Longrightarrow> features s1 k = features s k"
  using assms
  by (auto simp: creation_date_step_def Let_def network_keys_def
      split: if_splits sum.splits py_date.splits tzinfo.splits)

lemma lookups_body_frame:
  assumes "lookups_body env s = (exc, calls, s1)"
  shows "dom (features s) \<subseteq> dom (features s1)"
    and "response s1 = response s" and "soup s1 = soup s"
    and "k \<notin> set network_keys \<Longrightarrow> features s1 k = features s k"
    and "exc = None \<Longrightarrow> features s1 ''sslfinal_state'' = Some 1"
proof -
  show "dom (features s) \<subseteq> dom (features s1)"
  proof (cases "whois_lookup env (url s)")
    case (Inl e)
    with assms show ?thesis by (auto simp: lookups_body_def)
  next
    case (Inr d)
    obtain e2 s2 where cd: "creation_date_step env d s = (e2, s2)"
      by (cases "creation_date_step env d s")
    from creation_date_step_frame(1) [OF cd] assms Inr cd show ?thesis
      by (auto simp: lookups_body_def Let_def
          split: option.splits list.splits)
  qed
  show "response s1 = response s"
  proof (cases "whois_lookup env (url s)")
    case (Inl e)
    with assms show ?thesis by (auto simp: lookups_body_def)
  next
    case (Inr d)
    obtain e2 s2 where cd: "creation_date_step env d s = (e2, s2)"
      by (cases "creation_date_step env d s")
    from creation_date_step_frame(2) [OF cd] assms Inr cd show ?thesis
      by (auto simp: lookups_body_def Let_def
          split: option.splits list.splits)
  qed
  show "soup s1 = soup s"
  proof (cases "whois_lookup env (url s)")
    case (Inl e)
    with assms show ?thesis by (auto simp: lookups_body_def)
  next
    case (Inr d)
    obtain e2 s2 where cd: "creation_date_step env d s = (e2, s2)"
      by (cases "creation_date_step env d s")
    from creation_date_step_frame(3) [OF cd] assms Inr cd show ?thesis
      by (auto simp: lookups_body_def Let_def
          split: option.splits list.splits)
  qed
  show "features s1 k = features s k" if "k \<notin> set network_keys"
  proof (cases "whois_lookup env (url s)")
    case (Inl e)
    with assms show ?thesis by (auto simp: lookups_body_def)
  next
    case (Inr d)
    obtain e2 s2 where cd: "creation_date_step env d s = (e2, s2)"
      by (cases "creation_date_step env d s")
    from that have "k \<noteq> ''dnsrecord''" "k \<noteq> ''sslfinal_state''"
      by (auto simp: network_keys_def)
    with creation_date_step_frame(4) [OF cd that] assms Inr cd show ?thesis
      by (auto simp: lookups_body_def Let_def
          split: option.splits list.splits)
  qed
  show "features s1 ''sslfinal_state'' = Some 1" if "exc = None"
  proof (cases "whois_lookup env (url s)")
    case (Inl e)
    with assms that show ?thesis by (auto simp: lookups_body_def)
  next
    case (Inr d)
    obtain e2 s2 where cd: "creation_date_step env d s = (e2, s2)"
      by (cases "creation_date_step env d s")
    from assms Inr cd that show ?thesis
      by (auto simp: lookups_body_def Let_def
          split: option.splits list.splits)
  qed
qed

text \<open>
  A creation date that carries a time zone: the subtraction from \<^verbatim>\<open>datetime.now()\<close>
  raises, and nothing is assigned.
\<close>

lemma creation_date_step_aware:
  "creation_date d = Scalar (Datetime Aware c) \<Longrightarrow>
     creation_date_step env d s = (Some TypeError, s)"
  by (simp add: creation_date_step_def)

lemma lookups_body_whois_raises:
  "whois_lookup env (url s) = Inl e \<Longrightarrow>
     lookups_body env s = (Some e, [Whois_call (url s)], s)"
  by (simp add: lookups_body_def)

text \<open>
  C2. When \<^verbatim>\<open>whois.whois\<close> raises, \<^verbatim>\<open>_perform_additional_lookups\<close> leaves
  \<^verbatim>\<open>sslfinal_state\<close> at -1, and the WHOIS call is the only call it made: no
  connection to port 443 and no handshake was attempted.
\<close>

theorem whois_failure_forces_sslfinal_state:
  assumes "whois_lookup env (url s) = Inl e"
    and "perform_additional_lookups env s = (calls, s')"
  shows "features s' ''sslfinal_state'' = Some (- 1) \<and> calls = [Whois_call (url s)] \<and>
    (\<forall>h. Handshake_call h \<notin> set calls) \<and> (\<forall>h p. Connect_call h p \<notin> set calls)"
proof -
  define s0 where "s0 = s\<lparr>features := (features s)
                 (''age_of_domain'' \<mapsto> 0, ''domain_registration_length'' \<mapsto> 0,
                  ''dnsrecord'' \<mapsto> 0, ''sslfinal_state'' \<mapsto> 0, ''redirect'' \<mapsto> 0,
                  ''web_traffic'' \<mapsto> 0, ''page_rank'' \<mapsto> 0, ''google_index'' \<mapsto> 0,
                  ''links_pointing_to_page'' \<mapsto> 0, ''statistical_report'' \<mapsto> 0,
                  ''abnormal_url'' \<mapsto> 0)\<rparr>"
  from assms(1) have "whois_lookup env (url s0) = Inl e" by (simp add: s0_def)
  then have lb: "lookups_body env s0 = (Some e, [Whois_call (url s)], s0)"
    using lookups_body_whois_raises [of env s0 e] by (simp add: s0_def)
  from assms(2) lb have "calls = [Whois_call (url s)]"
    and "features s' ''sslfinal_state'' = Some (- 1)"
    by (auto simp: perform_additional_lookups_def Let_def s0_def [symmetric]
        split: option.splits)
  then show ?thesis by simp
qed

lemma perform_additional_lookups_frame:
  assumes "perform_additional_lookups env s = (calls, s')"
  shows "set network_keys \<subseteq> dom (features s')"
    and "soup s' = soup s"
    and "k \<notin> set network_keys \<Longrightarrow> features s' k = features s k"
proof -
  define s0 where "s0 = s\<lparr>features := (features s)
                 (''age_of_domain'' \<mapsto> 0, ''domain_registration_length'' \<mapsto> 0,
                  ''dnsrecord'' \<mapsto> 0, ''sslfinal_state'' \<mapsto> 0, ''redirect'' \<mapsto> 0,
                  ''web_traffic'' \<mapsto> 0, ''page_rank'' \<mapsto> 0, ''google_index'' \<mapsto> 0,
                  ''links_pointing_to_page'' \<mapsto> 0, ''statistical_report'' \<mapsto> 0,
                  ''abnormal_url'' \<mapsto> 0)\<rparr>"
  obtain exc cs s1 where lb: "lookups_body env s0 = (exc, cs, s1)"
    by (cases "lookups_body env s0")
  define s2 where "s2 = (case exc of
                  Some e \<Rightarrow> s1\<lparr>features := (features s1)(''sslfinal_state'' \<mapsto> - 1)\<rparr>
                | None \<Rightarrow> s1)"
  define s3 where "s3 = (case response s2 of
                  Some r \<Rightarrow> s2\<lparr>features := (features s2)(''redirect'' \<mapsto>
                              (if length (history r) > 0 then 1 else - 1))\<rparr>
                | None \<Rightarrow> s2)"
  from assms lb have s': "s' = s3"
    unfolding s3_def s2_def
    by (auto simp: perform_additional_lookups_def Let_def s0_def [symmetric])
  note fr = lookups_body_frame [OF lb]
  have d0: "set network_keys \<subseteq> dom (features s0)"
    by (simp add: s0_def network_keys_def)
  have d2: "dom (features s1) \<subseteq> dom (features s2)"
    by (auto simp: s2_def split: option.splits)
  have d3: "dom (features s2) \<subseteq> dom (features s3)"
    by (auto simp: s3_def split: option.splits)
  from d0 fr(1) d2 d3 s' show "set network_keys \<subseteq> dom (features s')" by blast
  have "soup s0 = soup s" by (simp add: s0_def)
  moreover have "soup s2 = soup s1" by (simp add: s2_def split: option.splits)
  moreover have "soup s3 = soup s2" by (simp add: s3_def split: option.splits)
  ultimately show "soup s' = soup s" using fr(3) s' by simp
  show "features s' k = features s k" if "k \<notin> set network_keys"
  proof -
    from that have ne: "k \<noteq> ''sslfinal_state''" "k \<noteq> ''redirect''"
      by (auto simp: network_keys_def)
    have "features s0 k = features s k" using that by (simp add: s0_def network_keys_def)
    moreover have "features s2 k = features s1 k"
      using ne by (simp add: s2_def split: option.splits)
    moreover have "features s3 k = features s2 k"
      using ne by (simp add: s3_def split: option.splits)
    ultimately show ?thesis using fr(4) [OF that] s' by simp
  qed
qed

text \<open>
  C9. After \<^verbatim>\<open>_perform_additional_lookups\<close>, whatever the lookups did, each of the
  eleven network keys is a key of the dictionary, so \<^verbatim>\<open>features.get(key, 0)\<close> returns
  the value stored and not the default.
\<close>

theorem network_keys_always_set:
  "perform_additional_lookups env s = (calls, s') \<Longrightarrow>
     set network_keys \<subseteq> dom (features s') \<and>
     (\<forall>k \<in> set network_keys. \<exists>v. features s' k = Some v \<and> dict_get (features s') k 0 = v)"
proof -
  assume "perform_additional_lookups env s = (calls, s')"
  then have sub: "set network_keys \<subseteq> dom (features s')"
    by (rule perform_additional_lookups_frame)
  then have "\<exists>v. features s' k = Some v \<and> dict_get (features s') k 0 = v"
    if "k \<in> set network_keys" for k
    using that by (auto simp: dict_get_def)
  with sub show ?thesis by blast
qed

subsection \<open>The whole extraction, and the examples\<close>

lemma structural_keys_disjoint:
  "k \<in> set structural_keys \<Longrightarrow> k \<notin> set lexical_keys \<and> k \<notin> set network_keys"
  by (auto simp: structural_keys_def lexical_keys_def network_keys_def)

lemma structural_keys_in_order: "set structural_keys \<subseteq> set feature_order"
  by (simp add: structural_keys_def feature_order_def)

lemma extract_all_features_no_soup:
  assumes "soup s = None" and "k \<notin> set lexical_keys" and "k \<notin> set network_keys"
  shows "features (snd (snd (extract_all_features env s))) k = features s k"
proof -
  obtain r sa where u: "extract_url_features (unicode_decimal env) s = (r, sa)"
    by (cases "extract_url_features (unicode_decimal env) s")
  from extract_url_features_other(1) [of "unicode_decimal env" s]
    extract_url_features_other(3) [OF assms(2), of "unicode_decimal env" s]
    u assms(1)
  have sa: "soup sa = None" "features sa k = features s k" by simp_all
  show ?thesis
  proof (cases r)
    case (Inl e)
    with u sa show ?thesis by (simp add: extract_all_features_def)
  next
    case (Inr x)
    obtain calls s3 where l: "perform_additional_lookups env sa = (calls, s3)"
      by (cases "perform_additional_lookups env sa")
    from perform_additional_lookups_frame(3) [OF l assms(3)] sa(2)
    have "features s3 k = features s k" by simp
    with u Inr sa(1) l show ?thesis by (simp add: extract_all_features_def)
  qed
qed

text \<open>
  C4. When \<^verbatim>\<open>fetch_website\<close> on a new object returns \<^verbatim>\<open>False\<close>, \<^verbatim>\<open>self.soup\<close> is
  \<^verbatim>\<open>None\<close>, and after \<^verbatim>\<open>extract_all_features\<close> (also when it raises) none of the
  nine structural keys is in the dictionary; \<^verbatim>\<open>get_feature_vector\<close> has 0 in each of
  their slots. All nine names occur in the canonical order.
\<close>

theorem structural_keys_absent_after_failed_fetch:
  assumes "fst (fetch_website env max_retries (init env raw)) = Inr False"
  shows "let s1 = snd (snd (fetch_website env max_retries (init env raw)));
             s2 = snd (snd (extract_all_features env s1))
         in soup s1 = None \<and>
            set structural_keys \<subseteq> set feature_order \<and>
            (\<forall>k \<in> set structural_keys. features s2 k = None) \<and>
            (\<forall>i < 30. feature_order ! i \<in> set structural_keys \<longrightarrow>
                get_feature_vector s2 ! i = 0)"
proof -
  define s1 where "s1 = snd (snd (fetch_website env max_retries (init env raw)))"
  define s2 where "s2 = snd (snd (extract_all_features env s1))"
  from assms have f: "fetch_website env max_retries (init env raw) =
      (Inr False, fst (snd (fetch_website env max_retries (init env raw))), s1)"
    by (simp add: s1_def prod_eq_iff)
  from fetch_website_False(1,2) [OF f] have s1: "soup s1 = None" "features s1 = Map.empty"
    by (simp_all add: init_def Let_def)
  have absent: "features s2 k = None" if "k \<in> set structural_keys" for k
  proof -
    from structural_keys_disjoint [OF that] have "features s2 k = features s1 k"
      unfolding s2_def by (intro extract_all_features_no_soup s1) simp_all
    with s1 show ?thesis by simp
  qed
  have slot: "get_feature_vector s2 ! i = 0"
    if "i < 30" "feature_order ! i \<in> set structural_keys" for i
    using that absent [OF that(2)]
    by (simp add: get_feature_vector_def length_feature_order dict_get_def)
  from s1 absent slot structural_keys_in_order show ?thesis
    by (simp add: s1_def [symmetric] s2_def [symmetric] Let_def)
qed

lemma selfsigned_run:
  "fst (fetch_website selfsigned_env 2 (init selfsigned_env (lit ''example.com''))) = Inr True"
  "map request_of (fst (snd (fetch_website selfsigned_env 2 (init selfsigned_env (lit ''example.com'')))))
     = [(lit ''http://example.com'', True, 0), (lit ''http://example.com'', False, 1)]"
  "map raised (fst (snd (fetch_website selfsigned_env 2 (init selfsigned_env (lit ''example.com'')))))
     = [Some SSLError, None]"
  "get_feature_vector (snd (snd (extract_all_features selfsigned_env
       (snd (snd (fetch_website selfsigned_env 2 (init selfsigned_env (lit ''example.com'')))))))) =
   [1, 18, - 1, - 1, - 1, - 1, - 1, 1, 1, - 1, - 1, - 1, 0, - 1, 0, 1, - 1,
    0, - 1, - 1, - 1, - 1, - 1, 1, 1, 0, 0, 0, 0, 0]"
  by code_simp+

lemma failing_extraction:
  "get_feature_vector (snd (snd (extract_all_features failing_env
       (snd (snd (fetch_website failing_env 2 (init failing_env (lit ''example.com'')))))))) =
   [1, 18, - 1, - 1, - 1, - 1, - 1, - 1, 0, 0, - 1, - 1, 0, 0, 0, 0, 0, 0, 0,
    0, 0, 0, 0, 0, 0, 0, 0, 0, 0, 0]"
  "features (snd (snd (extract_all_features failing_env
       (snd (snd (fetch_website failing_env 2 (init failing_env (lit ''example.com''))))))))
     ''sfh'' = None"
  by code_simp+

theorem structural_keys_absent_after_failed_fetch_witness:
  "fst (fetch_website failing_env 2 (init failing_env (lit ''example.com''))) = Inr False \<and>
   (15::nat) < 30 \<and> feature_order ! 15 = ''sfh'' \<and> ''sfh'' \<in> set structural_keys \<and>
   features (snd (snd (extract_all_features failing_env
       (snd (snd (fetch_website failing_env 2 (init failing_env (lit ''example.com''))))))))
     ''sfh'' = None \<and>
   get_feature_vector (snd (snd (extract_all_features failing_env
       (snd (snd (fetch_website failing_env 2 (init failing_env (lit ''example.com'')))))))) ! 15 = 0"
  using structural_keys_absent_after_failed_fetch [OF failing_run(1)]
  by (simp add: Let_def failing_run(1) structural_keys_def feature_order_def)

theorem whois_failure_forces_sslfinal_state_witness:
  "whois_lookup failing_env (url example_extractor) = Inl OtherException \<and>
   features (snd (perform_additional_lookups failing_env example_extractor))
     ''sslfinal_state'' = Some (- 1) \<and>
   fst (perform_additional_lookups failing_env example_extractor) =
     [Whois_call (lit ''http://example.com'')]"
proof -
  have w: "whois_lookup failing_env (url example_extractor) = Inl OtherException"
    by (simp add: failing_env_def)
  have p: "perform_additional_lookups failing_env example_extractor =
     (fst (perform_additional_lookups failing_env example_extractor),
      snd (perform_additional_lookups failing_env example_extractor))"
    by simp
  from whois_failure_forces_sslfinal_state [OF w p] w show ?thesis
    by (simp add: example_extractor_def)
qed

theorem network_keys_always_set_witness:
  "set network_keys \<subseteq>
     dom (features (snd (perform_additional_lookups selfsigned_env example_extractor))) \<and>
   ''sslfinal_state'' \<in> set network_keys \<and>
   (\<exists>v. features (snd (perform_additional_lookups selfsigned_env example_extractor))
          ''sslfinal_state'' = Some v)"
proof -
  have p: "perform_additional_lookups selfsigned_env example_extractor =
     (fst (perform_additional_lookups selfsigned_env example_extractor),
      snd (perform_additional_lookups selfsigned_env example_extractor))"
    by simp
  have k: "''sslfinal_state'' \<in> set network_keys" by (simp add: network_keys_def)
  from network_keys_always_set [OF p] k show ?thesis by blast
qed

theorem extract_url_features_deterministic_witness:
  "url (example_extractor\<lparr>features := Map.empty\<rparr>) = url example_extractor \<and>
   parsed_url (example_extractor\<lparr>features := Map.empty\<rparr>) = parsed_url example_extractor \<and>
   domain (example_extractor\<lparr>features := Map.empty\<rparr>) = domain example_extractor \<and>
   fst (extract_url_features arabic_indic example_extractor) = Inr () \<and>
   ''having_sub_domain'' \<in> set lexical_keys \<and>
   features (snd (extract_url_features arabic_indic (example_extractor\<lparr>features := Map.empty\<rparr>)))
     ''having_sub_domain'' =
   features (snd (extract_url_features arabic_indic example_extractor)) ''having_sub_domain''"
proof -
  have r: "fst (extract_url_features arabic_indic example_extractor) = Inr ()"
    by (simp add: extract_url_features_def Let_def example_extractor_def example_parsed_def
        split del: if_split)
  have k: "''having_sub_domain'' \<in> set lexical_keys" by (simp add: lexical_keys_def)
  from extract_url_features_deterministic
    [of arabic_indic example_extractor "example_extractor\<lparr>features := Map.empty\<rparr>"] r k
  show ?thesis by simp
qed

end
